theory Spec2Isabelle
  imports Complex_Main "HOL-Library.AList" "HOL-Library.Char_ord" "HOL-Library.List_Lexorder"
begin

text \<open>
  A shallow embedding of the core of the Freshdesk activity dashboard: the aggregation
  engine of \<open>utils/logicUtils.ts\<close>, the rate limiter and the retrying fetch of
  \<open>services/apiUtils.ts\<close>, and the paginator and the query for the tickets of a period of
  the Freshdesk service.
\<close>

section \<open>Strings and JavaScript containers\<close>

text \<open>
  JavaScript strings are modelled as \<^typ>\<open>string\<close> (one character per code unit, ASCII).
  \<open>toLowerCase\<close>, \<open>toUpperCase\<close> and \<open>trim\<close> act on the ASCII letters and the ASCII white
  space; \<open>includesStr\<close> is the substring test of \<open>String.prototype.includes\<close>.
\<close>

definition toLowerCase :: "string \<Rightarrow> string" where
  "toLowerCase s =
     map (\<lambda>c. if CHR ''A'' \<le> c \<and> c \<le> CHR ''Z'' then char_of (of_char c + (32::nat)) else c) s"

definition toUpperCase :: "string \<Rightarrow> string" where
  "toUpperCase s =
     map (\<lambda>c. if CHR ''a'' \<le> c \<and> c \<le> CHR ''z'' then char_of (of_char c - (32::nat)) else c) s"

definition isSpace :: "char \<Rightarrow> bool" where
  "isSpace c = (c = CHR '' '' \<or> (9::nat) \<le> of_char c \<and> of_char c \<le> (13::nat))"

definition trim :: "string \<Rightarrow> string" where
  "trim s = rev (dropWhile isSpace (rev (dropWhile isSpace s)))"

fun startsWith :: "string \<Rightarrow> string \<Rightarrow> bool" where
  "startsWith s [] = True"
| "startsWith [] (p # ps) = False"
| "startsWith (c # cs) (p # ps) = (c = p \<and> startsWith cs ps)"

fun includesStr :: "string \<Rightarrow> string \<Rightarrow> bool" where
  "includesStr [] p = (p = [])"
| "includesStr (c # cs) p = (startsWith (c # cs) p \<or> includesStr cs p)"

text \<open>Decimal rendering of a number inside a template literal.\<close>

fun showNat :: "nat \<Rightarrow> string" where
  "showNat n =
     (if n < 10 then [char_of (48 + n)] else showNat (n div 10) @ [char_of (48 + n mod 10)])"

declare showNat.simps [simp del]

definition showInt :: "int \<Rightarrow> string" where
  "showInt i = (if i < 0 then CHR ''-'' # showNat (nat (- i)) else showNat (nat i))"

text \<open>
  A JavaScript \<open>Map\<close> is an association list in insertion order: \<open>has\<close> and \<open>get\<close> read it
  with \<^const>\<open>map_of\<close>, \<open>set\<close> is \<^const>\<open>AList.update\<close> (an existing key keeps its place, a
  new one goes to the end). A \<open>Set\<close> is a list without repetition, in insertion order.
\<close>

definition mapHas :: "('k \<times> 'v) list \<Rightarrow> 'k \<Rightarrow> bool" where
  "mapHas m k = (map_of m k \<noteq> None)"

definition setAdd :: "'a \<Rightarrow> 'a list \<Rightarrow> 'a list" where
  "setAdd x xs = (if x \<in> set xs then xs else xs @ [x])"

text \<open>Instants are the millisecond values of \<open>Date\<close> objects.\<close>

type_synonym instant = int

section \<open>logicUtils.ts: time estimates\<close>

text \<open>
  Minute estimates are numbers; the arithmetic of \<open>constrainTimeEstimate\<close> is taken over
  the reals, which is exact for the integer minute totals that the aggregation passes in.
\<close>

definition toSATime :: "instant \<Rightarrow> instant" where
  "toSATime date = date + 2 * 60 * 60 * 1000"

definition formatMinutesToHours :: "real \<Rightarrow> string" where
  "formatMinutesToHours minutes0 =
     (let minutes = (if minutes0 < 0 then 0 else minutes0);
          hours = \<lfloor>minutes / 60\<rfloor>;
          remainingMins = \<lfloor>(minutes - 60 * of_int hours) + 1 / 2\<rfloor>
      in showInt hours @ ''h '' @ showInt remainingMins @ ''m'')"

definition formatTimeRange :: "real \<Rightarrow> real \<Rightarrow> string" where
  "formatTimeRange mn mx = formatMinutesToHours mn @ '' - '' @ formatMinutesToHours mx"

definition constrainTimeEstimate :: "real \<Rightarrow> real \<Rightarrow> real \<times> real" where
  "constrainTimeEstimate min0 max0 =
     (let newMax = max0;
          newMax = (if newMax > min0 * 1.5 then of_int \<lceil>min0 * 1.5\<rceil> else newMax);
          newMax = (if newMax < min0 then min0 else newMax)
      in (min0, newMax))"

section \<open>logicUtils.ts: the aggregation engine\<close>

text \<open>
  The records carry the fields that \<open>calculateAllAgentActivity\<close> reads. Timestamps are the
  instants that \<open>new Date(...)\<close> yields for the ISO strings of the API; an absent or empty
  \<open>closed_at\<close>/\<open>resolved_at\<close> (falsy under \<open>||\<close>) is \<^const>\<open>None\<close>, as is an absent
  \<open>body_text\<close> or an absent \<open>stats\<close> block.
\<close>

record Conversation =
  user_id :: int
  body_text :: "string option"
  created_at :: instant
  private_c :: bool

record TicketStats =
  resolved_at :: "instant option"
  closed_at :: "instant option"

record TicketWithConversations =
  ticket_id :: int
  responder_id :: int
  group_id :: int
  status :: int
  updated_at :: instant
  stats :: "TicketStats option"
  conversations :: "Conversation list"

text \<open>The values of \<open>dailyStats\<close> and \<open>groupStats\<close>, and the per-agent accumulator.\<close>

record DailyData =
  totalResponses_d :: nat
  totalActions_d :: nat
  totalClosed_d :: nat
  totalMin_d :: nat
  totalMax_d :: nat

record GroupData =
  worked :: nat
  closed :: nat

record AgentData =
  agentName :: string
  ticketIds :: "int list"
  totalMin :: nat
  totalMax :: nat
  totalResponses :: nat
  totalActions :: nat
  totalClosed :: nat
  dailyStats :: "(string \<times> DailyData) list"
  groupStats :: "(int \<times> GroupData) list"

type_synonym activity = "(int \<times> AgentData) list"

definition initialAgentData :: "string \<Rightarrow> AgentData" where
  "initialAgentData name =
     \<lparr>agentName = toUpperCase name, ticketIds = [], totalMin = 0, totalMax = 0,
      totalResponses = 0, totalActions = 0, totalClosed = 0, dailyStats = [], groupStats = []\<rparr>"

definition initialActivity :: "(int \<times> string) list \<Rightarrow> activity" where
  "initialActivity agentMap =
     fold (\<lambda>(i, name) acc. AList.update i (initialAgentData name) acc) agentMap []"

definition zeroDaily :: DailyData where
  "zeroDaily = \<lparr>totalResponses_d = 0, totalActions_d = 0, totalClosed_d = 0,
                 totalMin_d = 0, totalMax_d = 0\<rparr>"

definition zeroGroup :: GroupData where
  "zeroGroup = \<lparr>worked = 0, closed = 0\<rparr>"

definition inWindow :: "instant \<Rightarrow> instant \<Rightarrow> instant \<Rightarrow> bool" where
  "inWindow startDate endDate d = (d \<ge> startDate \<and> d \<le> endDate)"

definition isSystem :: "Conversation \<Rightarrow> bool" where
  "isSystem c = includesStr (toLowerCase (case body_text c of None \<Rightarrow> [] | Some b \<Rightarrow> b)) ''system''"

text \<open>
  Pass 1, the body of the inner \<open>forEach\<close> (lines 159-200): what one conversation does to the
  agent's accumulator. \<open>formatLocalDate\<close> renders an instant as the calendar day of the
  runtime's time zone; it is a parameter.
\<close>

definition recordConversation ::
  "(instant \<Rightarrow> string) \<Rightarrow> int \<Rightarrow> Conversation \<Rightarrow> AgentData \<Rightarrow> AgentData" where
  "recordConversation formatLocalDate tid c agentData =
     (let ids = setAdd tid (ticketIds agentData);
          dateStr = formatLocalDate (toSATime (created_at c));
          daily = (if \<not> mapHas (dailyStats agentData) dateStr
                   then AList.update dateStr zeroDaily (dailyStats agentData)
                   else dailyStats agentData);
          dailyData = (case map_of daily dateStr of Some d \<Rightarrow> d | None \<Rightarrow> zeroDaily);
          bodyText = (case body_text c of None \<Rightarrow> [] | Some b \<Rightarrow> toLowerCase (trim b))
      in if private_c c
         then agentData
               \<lparr>ticketIds := ids,
                totalActions := totalActions agentData + 1,
                dailyStats := AList.update dateStr
                   (dailyData\<lparr>totalActions_d := totalActions_d dailyData + 1\<rparr>) daily,
                totalMin := totalMin agentData + (if includesStr bodyText ''marked as spam'' then 1 else 2),
                totalMax := totalMax agentData + (if includesStr bodyText ''marked as spam'' then 2 else 3)\<rparr>
         else agentData
               \<lparr>ticketIds := ids,
                totalResponses := totalResponses agentData + 1,
                dailyStats := AList.update dateStr
                   (dailyData\<lparr>totalResponses_d := totalResponses_d dailyData + 1\<rparr>) daily,
                totalMin := totalMin agentData + (if length bodyText < 50 then 3 else 5),
                totalMax := totalMax agentData + (if length bodyText < 50 then 4 else 7)\<rparr>)"

definition pass1Conversation ::
  "(instant \<Rightarrow> string) \<Rightarrow> (int \<times> string) list \<Rightarrow> instant \<Rightarrow> instant \<Rightarrow> int \<Rightarrow>
     Conversation \<Rightarrow> int list \<times> activity \<Rightarrow> int list \<times> activity" where
  "pass1Conversation formatLocalDate agentMap startDate endDate tid c st =
     (case st of (agentsWorked, agentActivity) \<Rightarrow>
        if inWindow startDate endDate (created_at c)
        then if mapHas agentMap (user_id c) \<and> mapHas agentActivity (user_id c) \<and> \<not> isSystem c
             then (case map_of agentActivity (user_id c) of
                     None \<Rightarrow> st
                   | Some agentData \<Rightarrow>
                       (setAdd (user_id c) agentsWorked,
                        AList.update (user_id c)
                          (recordConversation formatLocalDate tid c agentData) agentActivity))
             else st
        else st)"

definition addWorked :: "int \<Rightarrow> AgentData \<Rightarrow> AgentData" where
  "addWorked gid ad =
     (let gs = (if \<not> mapHas (groupStats ad) gid then AList.update gid zeroGroup (groupStats ad)
                else groupStats ad)
      in ad\<lparr>groupStats := AList.map_entry gid (\<lambda>g. g\<lparr>worked := worked g + 1\<rparr>) gs\<rparr>)"

definition pass1Ticket ::
  "(instant \<Rightarrow> string) \<Rightarrow> (int \<times> string) list \<Rightarrow> instant \<Rightarrow> instant \<Rightarrow>
     TicketWithConversations \<Rightarrow> activity \<Rightarrow> activity" where
  "pass1Ticket formatLocalDate agentMap startDate endDate ticket agentActivity =
     (case fold (pass1Conversation formatLocalDate agentMap startDate endDate (ticket_id ticket))
             (conversations ticket) ([], agentActivity) of
        (agentsWorked, act) \<Rightarrow>
          fold (\<lambda>aid a. AList.map_entry aid (addWorked (group_id ticket)) a) agentsWorked act)"

text \<open>Pass 2, the body of the second \<open>forEach\<close> (lines 210-248).\<close>

definition closedAtOf :: "TicketWithConversations \<Rightarrow> instant" where
  "closedAtOf ticket =
     (case (case stats ticket of None \<Rightarrow> None | Some s \<Rightarrow> closed_at s) of
        Some d \<Rightarrow> d
      | None \<Rightarrow> (case (case stats ticket of None \<Rightarrow> None | Some s \<Rightarrow> resolved_at s) of
                   Some d \<Rightarrow> d
                 | None \<Rightarrow> updated_at ticket))"

definition recordClosure :: "(instant \<Rightarrow> string) \<Rightarrow> TicketWithConversations \<Rightarrow> AgentData \<Rightarrow> AgentData" where
  "recordClosure formatLocalDate ticket ad =
     (let dateStr = formatLocalDate (toSATime (closedAtOf ticket));
          minAdd = 1;
          maxAdd = 2;
          daily = (if \<not> mapHas (dailyStats ad) dateStr
                   then AList.update dateStr
                          \<lparr>totalResponses_d = 0, totalActions_d = 0, totalClosed_d = 1,
                           totalMin_d = minAdd, totalMax_d = maxAdd\<rparr> (dailyStats ad)
                   else AList.map_entry dateStr
                          (\<lambda>d. d\<lparr>totalClosed_d := totalClosed_d d + 1,
                                 totalMin_d := totalMin_d d + minAdd,
                                 totalMax_d := totalMax_d d + maxAdd\<rparr>) (dailyStats ad));
          gs = (if \<not> mapHas (groupStats ad) (group_id ticket)
                then AList.update (group_id ticket) zeroGroup (groupStats ad)
                else groupStats ad)
      in ad\<lparr>totalClosed := totalClosed ad + 1,
            totalMin := totalMin ad + minAdd,
            totalMax := totalMax ad + maxAdd,
            dailyStats := daily,
            groupStats := AList.map_entry (group_id ticket) (\<lambda>g. g\<lparr>closed := closed g + 1\<rparr>) gs\<rparr>)"

definition pass2Ticket ::
  "(instant \<Rightarrow> string) \<Rightarrow> (int \<times> string) list \<Rightarrow> instant \<Rightarrow> instant \<Rightarrow>
     TicketWithConversations \<Rightarrow> activity \<Rightarrow> activity" where
  "pass2Ticket formatLocalDate agentMap startDate endDate ticket agentActivity =
     (if status ticket = 4 \<or> status ticket = 5
      then if inWindow startDate endDate (closedAtOf ticket)
           then if mapHas agentMap (responder_id ticket) \<and> mapHas agentActivity (responder_id ticket)
                then (case map_of agentActivity (responder_id ticket) of
                        None \<Rightarrow> agentActivity
                      | Some ad \<Rightarrow>
                          if ticket_id ticket \<in> set (ticketIds ad)
                          then AList.update (responder_id ticket)
                                 (recordClosure formatLocalDate ticket ad) agentActivity
                          else agentActivity)
                else agentActivity
           else agentActivity
      else agentActivity)"

text \<open>
  The output records. \<open>cTotal\<close> is the source's local constant of that name, from which
  \<open>estimatedTimeRange\<close> is rendered; it is kept beside the rendering so that the estimate
  can be read as numbers. \<open>activityRatio\<close> and \<open>percent\<close> (renderings by \<open>toFixed\<close>) are
  left out. \<open>Array.prototype.sort\<close> is stable, as \<^const>\<open>sort_key\<close> is; \<open>localeCompare\<close>
  on the day keys is the lexicographic order of strings.
\<close>

record DailySummary =
  date :: string
  totalResponses_ds :: nat
  totalActions_ds :: nat
  totalClosed_ds :: nat
  totalAgentActivity_ds :: nat
  estimatedTimeRange_ds :: string
  totalMin_ds :: real
  totalMax_ds :: real

record AgentGroupStat =
  groupName :: string
  total_g :: nat
  worked_g :: nat
  closed_g :: nat

record AgentActivitySummary =
  agentId :: int
  agentName_s :: string
  ticketCount :: nat
  cTotal :: "real \<times> real"
  estimatedTimeRange :: string
  totalResponses_s :: nat
  totalActions_s :: nat
  totalClosed_s :: nat
  totalAgentActivity :: nat
  dailyBreakdown :: "DailySummary list"
  groupStats_s :: "AgentGroupStat list"

definition dailySummary :: "string \<times> DailyData \<Rightarrow> DailySummary" where
  "dailySummary e =
     (case e of (dt, st) \<Rightarrow>
        let c = constrainTimeEstimate (real (totalMin_d st)) (real (totalMax_d st))
        in \<lparr>date = dt,
            totalResponses_ds = totalResponses_d st,
            totalActions_ds = totalActions_d st,
            totalClosed_ds = totalClosed_d st,
            totalAgentActivity_ds = totalResponses_d st + totalActions_d st,
            estimatedTimeRange_ds = formatTimeRange (fst c) (snd c),
            totalMin_ds = fst c,
            totalMax_ds = snd c\<rparr>)"

definition agentGroupStat :: "(int \<times> string) list \<Rightarrow> int \<times> GroupData \<Rightarrow> AgentGroupStat" where
  "agentGroupStat groupMap e =
     (case e of (gid, st) \<Rightarrow>
        \<lparr>groupName = (case map_of groupMap gid of None \<Rightarrow> ''Other''
                       | Some n \<Rightarrow> if n = [] then ''Other'' else n),
         total_g = worked st + closed st,
         worked_g = worked st,
         closed_g = closed st\<rparr>)"

definition agentSummary :: "(int \<times> string) list \<Rightarrow> int \<times> AgentData \<Rightarrow> AgentActivitySummary" where
  "agentSummary groupMap e =
     (case e of (aid, data) \<Rightarrow>
        let constrainedDaily = map dailySummary (sort_key fst (dailyStats data));
            c = constrainTimeEstimate (real (totalMin data)) (real (totalMax data));
            agentGroupStats = sort_key (\<lambda>g. - int (worked_g g))
                                (map (agentGroupStat groupMap) (groupStats data))
        in \<lparr>agentId = aid,
            agentName_s = agentName data,
            ticketCount = length (ticketIds data),
            cTotal = c,
            estimatedTimeRange = formatTimeRange (fst c) (snd c),
            totalResponses_s = totalResponses data,
            totalActions_s = totalActions data,
            totalClosed_s = totalClosed data,
            totalAgentActivity = totalResponses data + totalActions data,
            dailyBreakdown = constrainedDaily,
            groupStats_s = agentGroupStats\<rparr>)"

definition aggregate ::
  "(instant \<Rightarrow> string) \<Rightarrow> TicketWithConversations list \<Rightarrow> (int \<times> string) list \<Rightarrow>
     instant \<Rightarrow> instant \<Rightarrow> activity" where
  "aggregate formatLocalDate tickets agentMap startDate endDate =
     fold (pass2Ticket formatLocalDate agentMap startDate endDate) tickets
       (fold (pass1Ticket formatLocalDate agentMap startDate endDate) tickets
          (initialActivity agentMap))"

definition calculateAllAgentActivity ::
  "(instant \<Rightarrow> string) \<Rightarrow> TicketWithConversations list \<Rightarrow> (int \<times> string) list \<Rightarrow>
     instant \<Rightarrow> instant \<Rightarrow> (int \<times> string) list \<Rightarrow> AgentActivitySummary list" where
  "calculateAllAgentActivity formatLocalDate tickets agentMap startDate endDate groupMap =
     sort_key (\<lambda>s. - int (ticketCount s))
       (filter (\<lambda>summary. ticketCount summary > 0 \<or> totalClosed_s summary > 0)
          (map (agentSummary groupMap)
             (aggregate formatLocalDate tickets agentMap startDate endDate)))"


subsection \<open>Notions used to state the properties of the engine\<close>

text \<open>
  A qualifying conversation, in the words of the specification: created within the window,
  written by a known agent, and without the substring "system" (in any case) in its body.
\<close>

definition qualifying ::
  "(int \<times> string) list \<Rightarrow> instant \<Rightarrow> instant \<Rightarrow> Conversation \<Rightarrow> bool" where
  "qualifying agentMap startDate endDate c =
     (inWindow startDate endDate (created_at c) \<and> mapHas agentMap (user_id c) \<and> \<not> isSystem c)"

text \<open>A property of every agent's accumulator in the table.\<close>

definition allAgents :: "(int \<Rightarrow> AgentData \<Rightarrow> bool) \<Rightarrow> activity \<Rightarrow> bool" where
  "allAgents P act = (\<forall>(k, d) \<in> set act. P k d)"

text \<open>The condition under which pass 2 credits the closure of a ticket.\<close>

definition closes ::
  "(int \<times> string) list \<Rightarrow> instant \<Rightarrow> instant \<Rightarrow> TicketWithConversations \<Rightarrow> activity \<Rightarrow> bool" where
  "closes agentMap s e t act =
     ((status t = 4 \<or> status t = 5) \<and> inWindow s e (closedAtOf t) \<and> mapHas agentMap (responder_id t)
      \<and> (\<exists>ad. map_of act (responder_id t) = Some ad \<and> ticket_id t \<in> set (ticketIds ad)))"

text \<open>
  While pass 2 runs, the closures credited so far and the tickets still to come that the
  agent touched fit together into the touched set.
\<close>

definition budget :: "TicketWithConversations list \<Rightarrow> int \<Rightarrow> AgentData \<Rightarrow> bool" where
  "budget ts k d =
     (totalClosed d + length (filter (\<lambda>t. ticket_id t \<in> set (ticketIds d)) ts)
        \<le> length (ticketIds d))"

definition untouched :: "int \<Rightarrow> int \<Rightarrow> int \<Rightarrow> AgentData \<Rightarrow> bool" where
  "untouched r tid k d = (k = r \<longrightarrow> tid \<notin> set (ticketIds d))"

subsection \<open>Concrete inputs\<close>

text \<open>
  A calendar rendering for the concrete runs: the number of the day since the epoch. The
  window of the runs is \<open>[1000, 9000]\<close>.
\<close>

definition dayNumber :: "instant \<Rightarrow> string" where
  "dayNumber t = showInt (t div 86400000)"

definition agentsAB :: "(int \<times> string) list" where
  "agentsAB = [(1, ''Agent A''), (2, ''Agent B'')]"

text \<open>
  Ticket 100 of the specification's scenario: closed, responder Agent A, a public reply of 80
  characters and a private note "marked as spam", both by Agent A.
\<close>

definition reply80 :: string where
  "reply80 = replicate 80 CHR ''a''"

definition ticket100 :: TicketWithConversations where
  "ticket100 =
     \<lparr>ticket_id = 100, responder_id = 1, group_id = 7, status = 5, updated_at = 5000,
      stats = Some \<lparr>resolved_at = None, closed_at = Some 4000\<rparr>,
      conversations =
        [\<lparr>user_id = 1, body_text = Some reply80, created_at = 2000, private_c = False\<rparr>,
         \<lparr>user_id = 1, body_text = Some ''marked as spam'', created_at = 3000, private_c = True\<rparr>]\<rparr>"

definition scenario100 :: "AgentActivitySummary list" where
  "scenario100 =
     calculateAllAgentActivity dayNumber [ticket100] agentsAB 1000 9000 [(7, ''Diesel'')]"

text \<open>
  Ticket 200 of the specification's scenario: closed by an automation with responder Agent B,
  whose only entry is a system note; Agent A replied on it.
\<close>

definition autoClosed200 :: TicketWithConversations where
  "autoClosed200 =
     \<lparr>ticket_id = 200, responder_id = 2, group_id = 7, status = 5, updated_at = 5000,
      stats = Some \<lparr>resolved_at = None, closed_at = Some 4000\<rparr>,
      conversations =
        [\<lparr>user_id = 2, body_text = Some ''Closed by System rule'', created_at = 3000, private_c = True\<rparr>,
         \<lparr>user_id = 1, body_text = Some ''We are looking into it'', created_at = 3500,
          private_c = False\<rparr>]\<rparr>"


section \<open>apiUtils.ts: the rate limiter\<close>

text \<open>
  The fields of class \<open>RateLimiter\<close>. A queued item is named by a number; its \<open>resolve\<close> and
  \<open>reject\<close> callbacks only hand the task's result to the caller and are not modelled.
\<close>

record RateLimiter =
  queue :: "nat list"
  activeRequests :: int
  requestTimestamps :: "instant list"
  globalRetryAfter :: instant
  maxConcurrent :: int
  windowMs :: int
  maxPerWindow :: int

definition newRateLimiter :: RateLimiter where
  "newRateLimiter =
     \<lparr>queue = [], activeRequests = 0, requestTimestamps = [], globalRetryAfter = 0,
      maxConcurrent = 5, windowMs = 1000, maxPerWindow = 10\<rparr>"

text \<open>\<open>updateConfig\<close> takes over the fields that are present and truthy (not zero).\<close>

definition updateConfig :: "int option \<Rightarrow> int option \<Rightarrow> int option \<Rightarrow> RateLimiter \<Rightarrow> RateLimiter" where
  "updateConfig cMaxConcurrent cWindowMs cMaxPerWindow l =
     l\<lparr>maxConcurrent := (case cMaxConcurrent of None \<Rightarrow> maxConcurrent l
                           | Some n \<Rightarrow> if n = 0 then maxConcurrent l else n),
       windowMs := (case cWindowMs of None \<Rightarrow> windowMs l
                    | Some n \<Rightarrow> if n = 0 then windowMs l else n),
       maxPerWindow := (case cMaxPerWindow of None \<Rightarrow> maxPerWindow l
                        | Some n \<Rightarrow> if n = 0 then maxPerWindow l else n)\<rparr>"

text \<open>
  What one run of \<open>processQueue\<close> does before its first \<open>await\<close>: it re-arms itself with
  \<open>setTimeout\<close> (\<open>Postponed\<close> with the delay), returns at capacity, finds the queue empty, or
  starts the head of the queue. \<open>now\<close> is the value of \<open>Date.now()\<close> in line 35 and \<open>startedAt\<close>
  the one pushed in line 57. With an empty log the delay \<open>windowMs - (now - undefined) + 50\<close>
  is \<open>NaN\<close>, which \<open>setTimeout\<close> takes as 0.
\<close>

datatype admission = Postponed int | AtCapacity | NothingQueued | Started nat

definition processQueue :: "instant \<Rightarrow> instant \<Rightarrow> RateLimiter \<Rightarrow> RateLimiter \<times> admission" where
  "processQueue now startedAt l =
     (if now < globalRetryAfter l
      then (l, Postponed (globalRetryAfter l - now + 500))
      else if activeRequests l \<ge> maxConcurrent l then (l, AtCapacity)
      else let ts = filter (\<lambda>t. now - t < windowMs l) (requestTimestamps l);
               l1 = l\<lparr>requestTimestamps := ts\<rparr>
           in if int (length ts) \<ge> maxPerWindow l
              then (l1, Postponed (case ts of [] \<Rightarrow> 0
                                   | oldest # _ \<Rightarrow> windowMs l - (now - oldest) + 50))
              else (case queue l1 of
                      [] \<Rightarrow> (l1, NothingQueued)
                    | item # rest \<Rightarrow>
                        (l1\<lparr>queue := rest,
                            activeRequests := activeRequests l1 + 1,
                            requestTimestamps := ts @ [startedAt]\<rparr>, Started item)))"

definition schedule :: "nat \<Rightarrow> instant \<Rightarrow> instant \<Rightarrow> RateLimiter \<Rightarrow> RateLimiter \<times> admission" where
  "schedule task now startedAt l = processQueue now startedAt (l\<lparr>queue := queue l @ [task]\<rparr>)"

text \<open>The \<open>finally\<close> block of a started task (lines 64-67), run when the task settles.\<close>

definition taskSettled :: "instant \<Rightarrow> instant \<Rightarrow> RateLimiter \<Rightarrow> RateLimiter \<times> admission" where
  "taskSettled now startedAt l =
     processQueue now startedAt (l\<lparr>activeRequests := activeRequests l - 1\<rparr>)"

definition setGlobalBackoff :: "int \<Rightarrow> instant \<Rightarrow> RateLimiter \<Rightarrow> RateLimiter" where
  "setGlobalBackoff seconds now l = l\<lparr>globalRetryAfter := now + (seconds * 1000) + 1000\<rparr>"

text \<open>
  Runs of the limiter. JavaScript runs each of these to completion before the next: a call
  of \<open>schedule\<close>, the firing of a timer armed by \<open>processQueue\<close>, the settling of a started
  task, and a call of \<open>setGlobalBackoff\<close>. An event carries the two clock readings of its
  \<open>processQueue\<close> run. Beside the limiter the run records which tasks are in flight and the
  log of starts (task and start time). A \<open>Timer\<close> may fire at any time, and \<open>Settled\<close> only
  acts on a task that is in flight.
\<close>

datatype event = Schedule nat | Timer | Settled nat | SetGlobalBackoff int

record run_state =
  limiter :: RateLimiter
  inFlight :: "nat list"
  startLog :: "(nat \<times> instant) list"

definition observe :: "instant \<Rightarrow> RateLimiter \<times> admission \<Rightarrow> run_state \<Rightarrow> run_state" where
  "observe startedAt r sys =
     (case r of
        (l, Started task) \<Rightarrow>
          sys\<lparr>limiter := l, inFlight := inFlight sys @ [task],
              startLog := startLog sys @ [(task, startedAt)]\<rparr>
      | (l, _) \<Rightarrow> sys\<lparr>limiter := l\<rparr>)"

fun step :: "event \<times> instant \<times> instant \<Rightarrow> run_state \<Rightarrow> run_state" where
  "step (Schedule task, now, startedAt) sys =
     observe startedAt (schedule task now startedAt (limiter sys)) sys"
| "step (Timer, now, startedAt) sys =
     observe startedAt (processQueue now startedAt (limiter sys)) sys"
| "step (Settled task, now, startedAt) sys =
     (if task \<in> set (inFlight sys)
      then observe startedAt (taskSettled now startedAt (limiter sys))
             (sys\<lparr>inFlight := remove1 task (inFlight sys)\<rparr>)
      else sys)"
| "step (SetGlobalBackoff seconds, now, startedAt) sys =
     sys\<lparr>limiter := setGlobalBackoff seconds now (limiter sys)\<rparr>"

definition run :: "(event \<times> instant \<times> instant) list \<Rightarrow> run_state \<Rightarrow> run_state" where
  "run evs sys = fold step evs sys"

text \<open>The clock never runs backwards along a run.\<close>

fun wellTimed :: "instant \<Rightarrow> (event \<times> instant \<times> instant) list \<Rightarrow> bool" where
  "wellTimed clock [] = True"
| "wellTimed clock ((ev, now, startedAt) # evs) =
     (clock \<le> now \<and> now \<le> startedAt \<and> wellTimed startedAt evs)"

fun isBackoff :: "event \<times> instant \<times> instant \<Rightarrow> bool" where
  "isBackoff (SetGlobalBackoff seconds, now, startedAt) = True"
| "isBackoff (ev, now, startedAt) = False"

definition freshRun :: "int \<Rightarrow> int \<Rightarrow> int \<Rightarrow> run_state" where
  "freshRun n w m =
     \<lparr>limiter = newRateLimiter\<lparr>maxConcurrent := n, windowMs := w, maxPerWindow := m\<rparr>,
      inFlight = [], startLog = []\<rparr>"

definition startsIn :: "instant \<Rightarrow> int \<Rightarrow> run_state \<Rightarrow> nat" where
  "startsIn a w sys = length (filter (\<lambda>(task, t). a \<le> t \<and> t < a + w) (startLog sys))"

text \<open>The invariant of a run with configuration \<open>(n, w, m)\<close>, at clock \<open>clock\<close>.\<close>

definition limiterInv :: "int \<Rightarrow> int \<Rightarrow> int \<Rightarrow> instant \<Rightarrow> run_state \<Rightarrow> bool" where
  "limiterInv n w m clock sys =
     (maxConcurrent (limiter sys) = n \<and> windowMs (limiter sys) = w \<and> maxPerWindow (limiter sys) = m
      \<and> activeRequests (limiter sys) = int (length (inFlight sys))
      \<and> int (length (inFlight sys)) \<le> n
      \<and> (\<forall>T \<ge> clock. filter (\<lambda>t. T - t < w) (requestTimestamps (limiter sys))
                        = filter (\<lambda>t. T - t < w) (map snd (startLog sys)))
      \<and> (\<forall>a. int (startsIn a w sys) \<le> m))"

text \<open>
  Two overload signals in a row, 60 seconds at time 0 and 1 second at time 100, and a task
  scheduled at time 3000.
\<close>

definition twoBackoffs :: "(event \<times> instant \<times> instant) list" where
  "twoBackoffs =
     [(SetGlobalBackoff 60, 0, 0), (SetGlobalBackoff 1, 100, 100), (Schedule 7, 3000, 3000)]"

text \<open>
  While no further overload signal arrives: the deadline stays \<open>g\<close>, and every start logged
  from position \<open>k\<close> of the log on is at or after \<open>g\<close>.
\<close>

definition pausedUntil :: "instant \<Rightarrow> nat \<Rightarrow> run_state \<Rightarrow> bool" where
  "pausedUntil g k sys =
     (globalRetryAfter (limiter sys) = g \<and> k \<le> length (startLog sys)
      \<and> (\<forall>(task, t) \<in> set (drop k (startLog sys)). g \<le> t))"

text \<open>
  A limiter with one slot: task 1 runs and task 2 waits in the queue when an overload
  signal of 2 seconds arrives at time 100. Then task 1 settles, task 3 is scheduled, a timer
  fires at 3200 and task 2 settles.
\<close>

definition queuedBefore :: run_state where
  "queuedBefore = run [(Schedule 1, 0, 0), (Schedule 2, 10, 10)] (freshRun 1 1000 10)"

definition oneBackoff :: "(event \<times> instant \<times> instant) list" where
  "oneBackoff =
     [(Settled 1, 500, 500), (Schedule 3, 600, 600), (Timer, 3200, 3200), (Settled 2, 3300, 3300)]"

text \<open>
  The specification's scenario for \<open>N = 2\<close>, \<open>M = 3\<close>, \<open>W = 1000\<close>: five tasks scheduled at
  once, then timers and settling tasks.
\<close>

definition fiveTasks :: "(event \<times> instant \<times> instant) list" where
  "fiveTasks =
     [(Schedule 1, 0, 0), (Schedule 2, 0, 0), (Schedule 3, 0, 0), (Schedule 4, 0, 0),
      (Schedule 5, 0, 0), (Timer, 500, 500), (Settled 1, 700, 700), (Timer, 1000, 1000),
      (Settled 2, 1040, 1041), (Timer, 1050, 1050), (Settled 3, 1800, 1800)]"


section \<open>apiUtils.ts: fetchWithRetry\<close>

text \<open>
  A thrown JavaScript error with its \<open>name\<close> and \<open>message\<close>; \<open>new Error(msg)\<close> has the name
  \<open>Error\<close>. A response carries its status, the two headers that are read, its body as text
  and what \<open>response.json()\<close> yields: an array, an object with \<open>results\<close> and \<open>total\<close> (either
  may be missing), another value, \<open>null\<close>, or a syntax error. Reading the body as text
  does not fail.
\<close>

record JsError =
  errorName :: string
  message :: string

definition newError :: "string \<Rightarrow> JsError" where
  "newError msg = \<lparr>errorName = ''Error'', message = msg\<rparr>"

datatype 'a json = JArray "'a list" | JSearch "'a list option" "nat option" | JOther | JNull | JInvalid

record 'a Response =
  statusCode :: nat
  contentType :: "string option"
  retryAfter :: "string option"
  bodyText :: string
  json :: "'a json"

definition ok :: "'a Response \<Rightarrow> bool" where
  "ok r = (200 \<le> statusCode r \<and> statusCode r \<le> 299)"

definition isJson :: "'a Response \<Rightarrow> bool" where
  "isJson r = includesStr (case contentType r of None \<Rightarrow> [] | Some c \<Rightarrow> c) ''application/json''"

text \<open>\<open>parseInt(s, 10)\<close>; \<^const>\<open>None\<close> is \<open>NaN\<close>.\<close>

definition isDigit :: "char \<Rightarrow> bool" where
  "isDigit c = (CHR ''0'' \<le> c \<and> c \<le> CHR ''9'')"

definition digitsValue :: "string \<Rightarrow> nat" where
  "digitsValue ds = foldl (\<lambda>n c. 10 * n + (of_char c - 48)) 0 ds"

definition parseInt :: "string \<Rightarrow> int option" where
  "parseInt s =
     (let t = dropWhile isSpace s;
          negative = (t \<noteq> [] \<and> hd t = CHR ''-'');
          u = (if t \<noteq> [] \<and> (hd t = CHR ''-'' \<or> hd t = CHR ''+'') then tl t else t);
          ds = takeWhile isDigit u
      in if ds = [] then None
         else Some (if negative then - int (digitsValue ds) else int (digitsValue ds)))"

definition showNumber :: "int option \<Rightarrow> string" where
  "showNumber n = (case n of None \<Rightarrow> ''NaN'' | Some i \<Rightarrow> showInt i)"

definition retryAfterOf :: "'a Response \<Rightarrow> int option" where
  "retryAfterOf r =
     (case retryAfter r of None \<Rightarrow> Some 5 | Some h \<Rightarrow> if h = [] then Some 5 else parseInt h)"

definition backendError :: "string \<Rightarrow> 'a Response \<Rightarrow> JsError" where
  "backendError url r =
     newError (''Backend Error: The proxy server returned 404 for '' @ url @ ''. Response: ''
               @ take 100 (bodyText r) @ ''... Ensure '' @ [CHR 0x27] @ ''npm start'' @ [CHR 0x27]
               @ '' is running and server.js handles this route.'')"

definition busyError :: "int option \<Rightarrow> JsError" where
  "busyError ra = newError (''Server is busy. Please try again in '' @ showNumber ra @ '' seconds.'')"

definition isNetworkError :: "JsError \<Rightarrow> bool" where
  "isNetworkError err =
     (errorName err = ''TypeError''
      \<and> (includesStr (message err) ''Failed to fetch'' \<or> includesStr (message err) ''NetworkError''))"

text \<open>
  One turn of the loop (lines 94-140), given what \<open>limiter.schedule(() => fetch(url, options))\<close>
  settles with: the body of \<open>try\<close> returns, continues or throws, and what it throws goes
  through \<open>catch\<close>. The decision comes with the arguments of the calls of
  \<open>limiter.setGlobalBackoff\<close> made on the way, and a \<open>Continue\<close> with the value that \<open>catch\<close>
  stored in \<open>lastError\<close>, if any. The waiting before a retry is not modelled.
\<close>

datatype 'a fetchOutcome = Responds "'a Response" | Rejects JsError

datatype 'a decision = Return "'a Response" | Break JsError | Continue "JsError option"

definition catchBlock :: "JsError \<Rightarrow> nat \<Rightarrow> nat \<Rightarrow> 'a decision" where
  "catchBlock error maxRetries attempt =
     (if includesStr (message error) ''Backend Error'' then Break error
      else if attempt < maxRetries \<and> isNetworkError error then Continue (Some error)
      else Break error)"

definition attemptDecision ::
  "'a fetchOutcome \<Rightarrow> string \<Rightarrow> nat \<Rightarrow> nat \<Rightarrow> 'a decision \<times> int option list" where
  "attemptDecision settled url maxRetries attempt =
     (case settled of
        Rejects error \<Rightarrow> (catchBlock error maxRetries attempt, [])
      | Responds response \<Rightarrow>
          if statusCode response = 404 \<and> \<not> isJson response
          then (catchBlock (backendError url response) maxRetries attempt, [])
          else if statusCode response = 429 \<or> statusCode response = 503
          then (if attempt < maxRetries then Continue None
                else catchBlock (busyError (retryAfterOf response)) maxRetries attempt,
                [retryAfterOf response])
          else (Return response, []))"

text \<open>
  After the loop (lines 143-157). The loop is only left through its condition with
  \<open>lastError\<close> unset if a \<open>continue\<close> happened in the last turn, which the guards exclude;
  \<open>throw null\<close> is given the name \<open>null\<close> here.
\<close>

definition afterLoop :: "string \<Rightarrow> JsError option \<Rightarrow> JsError" where
  "afterLoop url lastError =
     (case lastError of
        None \<Rightarrow> \<lparr>errorName = ''null'', message = []\<rparr>
      | Some e \<Rightarrow>
          if includesStr (message e) ''Backend Error'' then e
          else if includesStr (message e) ''Failed to fetch'' \<or> errorName e = ''TypeError''
          then (if includesStr url ''/api/freshdesk''
                then newError (''Network Error: Cannot reach the local proxy at '' @ url
                               @ ''. Ensure the server is running on port 8080.'')
                else if includesStr url ''run.app''
                then newError (''Network Error: Cloud Proxy ('' @ url @ '') connection rejected. ''
                               @ ''This often means a CORS configuration issue on the server.'')
                else newError (''Network Error: Unable to connect to the server ('' @ url
                               @ ''). Please check your internet connection.''))
          else e)"

text \<open>
  The result of a call: what it returns or throws, how many times it fetched, and the
  arguments of its calls of \<open>setGlobalBackoff\<close>. \<open>net k\<close> is what the fetch of turn \<open>k\<close>
  settles with.
\<close>

record 'a FetchRun =
  result :: "JsError + 'a Response"
  fetches :: nat
  backoffCalls :: "int option list"

definition counted :: "int option list \<Rightarrow> 'a FetchRun \<Rightarrow> 'a FetchRun" where
  "counted bs r = r\<lparr>fetches := fetches r + 1, backoffCalls := bs @ backoffCalls r\<rparr>"

function fetchLoop ::
  "(nat \<Rightarrow> 'a fetchOutcome) \<Rightarrow> string \<Rightarrow> nat \<Rightarrow> nat \<Rightarrow> JsError option \<Rightarrow> 'a FetchRun" where
  "fetchLoop net url maxRetries attempt lastError =
     (if attempt \<le> maxRetries
      then (case attemptDecision (net attempt) url maxRetries attempt of
              (Return response, bs) \<Rightarrow> \<lparr>result = Inr response, fetches = 1, backoffCalls = bs\<rparr>
            | (Break error, bs) \<Rightarrow>
                \<lparr>result = Inl (afterLoop url (Some error)), fetches = 1, backoffCalls = bs\<rparr>
            | (Continue stored, bs) \<Rightarrow>
                counted bs (fetchLoop net url maxRetries (attempt + 1)
                              (case stored of None \<Rightarrow> lastError | Some e \<Rightarrow> Some e)))
      else \<lparr>result = Inl (afterLoop url lastError), fetches = 0, backoffCalls = []\<rparr>)"
  by pat_completeness auto
termination
  by (relation "measure (\<lambda>(net, url, maxRetries, attempt, lastError). maxRetries + 1 - attempt)") auto

declare fetchLoop.simps [simp del]

definition fetchWithRetry :: "(nat \<Rightarrow> 'a fetchOutcome) \<Rightarrow> string \<Rightarrow> nat \<Rightarrow> 'a FetchRun" where
  "fetchWithRetry net url maxRetries = fetchLoop net url maxRetries 0 None"

text \<open>A turn that ends in \<open>continue\<close> whenever a further attempt is left.\<close>

definition retried :: "'a fetchOutcome \<Rightarrow> bool" where
  "retried settled =
     (case settled of
        Rejects error \<Rightarrow> \<not> includesStr (message error) ''Backend Error'' \<and> isNetworkError error
      | Responds response \<Rightarrow>
          \<not> (statusCode response = 404 \<and> \<not> isJson response)
          \<and> (statusCode response = 429 \<or> statusCode response = 503))"


section \<open>The Freshdesk service: requests, pagination, tickets of a period\<close>

text \<open>
  Percent encoding. \<open>encodeURIComponent\<close> keeps letters, digits and \<open>- _ . ! ~ * ' ( )\<close>;
  the serializer of \<open>URLSearchParams\<close> keeps letters, digits and \<open>* - . _\<close> and writes a
  space as \<open>+\<close>.
\<close>

definition isAlphaNum :: "char \<Rightarrow> bool" where
  "isAlphaNum c =
     (isDigit c \<or> (let n = (of_char c :: nat) in (65 \<le> n \<and> n \<le> 90) \<or> (97 \<le> n \<and> n \<le> 122)))"

definition hexDigit :: "nat \<Rightarrow> char" where
  "hexDigit n = ''0123456789ABCDEF'' ! (n mod 16)"

definition percent :: "char \<Rightarrow> string" where
  "percent c = [CHR ''%'', hexDigit (of_char c div 16), hexDigit (of_char c mod 16)]"

definition encodeURIComponent :: "string \<Rightarrow> string" where
  "encodeURIComponent s =
     concat (map (\<lambda>c. if isAlphaNum c \<or> c \<in> set (''-_.!~*()'' @ [CHR 0x27]) then [c]
                        else percent c) s)"

definition formEncode :: "string \<Rightarrow> string" where
  "formEncode s =
     concat (map (\<lambda>c. if isAlphaNum c \<or> c \<in> set ''*-._'' then [c]
                        else if c = CHR '' '' then ''+'' else percent c) s)"

fun joinWith :: "string \<Rightarrow> string list \<Rightarrow> string" where
  "joinWith sep [] = []"
| "joinWith sep [x] = x"
| "joinWith sep (x # y # ys) = x @ sep @ joinWith sep (y # ys)"

definition urlSearchParams :: "(string \<times> string) list \<Rightarrow> string" where
  "urlSearchParams ps = joinWith ''&'' (map (\<lambda>(k, v). formEncode k @ ''='' @ formEncode v) ps)"

text \<open>\<open>getTargetUrl\<close> with \<open>USE_PROXY = true\<close> (constants.ts): the base is \<open>/api\<close>.\<close>

definition getTargetUrl :: "string \<Rightarrow> (string \<times> string) list \<Rightarrow> string" where
  "getTargetUrl endpoint params =
     (let path = (if startsWith endpoint ''/'' then endpoint else ''/'' @ endpoint);
          url = ''/api'' @ path;
          queryParts = map (\<lambda>(k, v). k @ ''='' @ encodeURIComponent v) params
      in if queryParts \<noteq> []
         then url @ (if includesStr url ''?'' then ''&'' else ''?'') @ joinWith ''&'' queryParts
         else url)"

text \<open>
  \<open>handleApiError\<close> always throws; the value is the error thrown. \<open>parseApiError\<close> (the
  rendering of the body of a failed response) is a parameter: its text enters the message
  for a status from 500 on and in the last case only.
\<close>

definition handleApiError :: "('a Response \<Rightarrow> string) \<Rightarrow> 'a Response \<Rightarrow> string \<Rightarrow> JsError" where
  "handleApiError parseApiError response context =
     (let errorMsg = parseApiError response
      in if statusCode response = 401
         then newError (''Authentication Failed: Ensure your API Key is correct. ('' @ context @ '')'')
         else if statusCode response = 403
         then newError (''Access Denied: You do not have permission to access '' @ context @ ''.'')
         else if statusCode response = 429
         then newError ''Rate Limit Exceeded: Freshdesk is busy. Please try again in a minute.''
         else if statusCode response = 404
         then newError (''Not Found: The requested '' @ context @ '' could not be found.'')
         else if statusCode response \<ge> 500
         then newError (''Freshdesk System Error ('' @ showNat (statusCode response)
                        @ ''): Please try again later. ('' @ errorMsg @ '')'')
         else newError (''API Error ('' @ showNat (statusCode response) @ ''): '' @ errorMsg))"

text \<open>
  \<open>executeRequest\<close>: one request through \<open>fetchWithRetry\<close> with one retry. \<open>world url k\<close> is
  what the fetch of turn \<open>k\<close> for \<open>url\<close> settles with. The \<open>catch\<close> logs and rethrows.
\<close>

type_synonym 'a world = "string \<Rightarrow> nat \<Rightarrow> 'a fetchOutcome"

definition executeRequest ::
  "'a world \<Rightarrow> string \<Rightarrow> (string \<times> string) list \<Rightarrow> JsError + 'a Response" where
  "executeRequest world endpoint params =
     (let fullUrl = getTargetUrl endpoint params
      in case result (fetchWithRetry (world fullUrl) fullUrl 1) of
           Inl e \<Rightarrow> Inl e
         | Inr response \<Rightarrow>
             if statusCode response = 404 \<and> \<not> isJson response
             then Inl (newError (''Connectivity Error: The target endpoint '' @ endpoint
                                 @ '' could not be reached.''))
             else Inr response)"

text \<open>
  \<open>fetchPaginatedFreshdeskAPI\<close>. A page of the search mode beyond the first (lines 143-156)
  yields its \<open>results\<close>, and the empty list when the request throws, the response is not
  \<open>ok\<close>, the body cannot be read or has no \<open>results\<close>.
\<close>

definition searchPage :: "'a world \<Rightarrow> string \<Rightarrow> nat \<Rightarrow> 'a list" where
  "searchPage world endpoint page =
     (case executeRequest world endpoint [(''page'', showNat page)] of
        Inl err \<Rightarrow> []
      | Inr res \<Rightarrow>
          if \<not> ok res then []
          else (case json res of JSearch (Some rs) tot \<Rightarrow> rs | _ \<Rightarrow> []))"

definition syntaxError :: JsError where
  "syntaxError = \<lparr>errorName = ''SyntaxError'', message = ''Unexpected token in JSON''\<rparr>"

definition nullTypeError :: JsError where
  "nullTypeError =
     \<lparr>errorName = ''TypeError'', message = ''Cannot read properties of null (reading results)''\<rparr>"

function listPages ::
  "'a world \<Rightarrow> string \<Rightarrow> nat \<Rightarrow> nat \<Rightarrow> nat \<Rightarrow> 'a list \<Rightarrow> JsError + 'a list" where
  "listPages world endpoint pageSize maxPages page allResults =
     (if page \<le> maxPages
      then (case executeRequest world endpoint
                   [(''page'', showNat page), (''per_page'', showNat pageSize)] of
              Inl e \<Rightarrow> Inl e
            | Inr res \<Rightarrow>
                if \<not> ok res then Inr allResults
                else (case json res of
                        JInvalid \<Rightarrow> Inl syntaxError
                      | JArray pageData \<Rightarrow>
                          if pageData \<noteq> []
                          then if length pageData < pageSize then Inr (allResults @ pageData)
                               else listPages world endpoint pageSize maxPages (page + 1)
                                      (allResults @ pageData)
                          else Inr allResults
                      | _ \<Rightarrow> Inr allResults))
      else Inr allResults)"
  by pat_completeness auto
termination
  by (relation "measure (\<lambda>(world, endpoint, pageSize, maxPages, page, allResults).
                           maxPages + 1 - page)") auto

declare listPages.simps [simp del]

definition fetchPaginatedFreshdeskAPI ::
  "('a Response \<Rightarrow> string) \<Rightarrow> 'a world \<Rightarrow> string \<Rightarrow> nat \<Rightarrow> JsError + 'a list" where
  "fetchPaginatedFreshdeskAPI parseApiError world endpoint maxPages =
     (let isSearch = includesStr endpoint ''/search/'';
          pageSize = (if isSearch then 30 else 100 :: nat);
          p1Params = [(''page'', ''1'')]
                     @ (if \<not> isSearch then [(''per_page'', showNat pageSize)] else [])
      in case executeRequest world endpoint p1Params of
           Inl e \<Rightarrow> Inl e
         | Inr response \<Rightarrow>
             if \<not> ok response then Inl (handleApiError parseApiError response endpoint)
             else (case json response of
                     JInvalid \<Rightarrow> Inl syntaxError
                   | JNull \<Rightarrow> if isSearch then Inl nullTypeError else Inr []
                   | JOther \<Rightarrow> Inr []
                   | JSearch None tot \<Rightarrow> Inr []
                   | JSearch (Some rs) tot \<Rightarrow>
                       if isSearch
                       then (let totalItems = (case tot of None \<Rightarrow> 0 | Some n \<Rightarrow> n);
                                 searchMaxPages = min ((totalItems + pageSize - 1) div pageSize) 10
                             in if totalItems > length rs
                                then Inr (rs @ concat (map (searchPage world endpoint)
                                                         [2 ..< Suc searchMaxPages]))
                                else Inr rs)
                       else Inr []
                   | JArray data \<Rightarrow>
                       if length data < pageSize then Inr data
                       else listPages world endpoint pageSize maxPages 2 data))"

text \<open>
  \<open>getTicketsUpdatedInPeriod\<close>. \<open>toISOString\<close> (the rendering of a \<open>Date\<close>) and the reading of
  a ticket's \<open>updated_at\<close> are parameters. The errors in play are \<open>Error\<close> objects and
  rejections of \<open>fetch\<close>; they have no \<open>status\<close> property, so \<open>e.status === 403\<close> is false.
\<close>

definition isoSeconds :: "(instant \<Rightarrow> string) \<Rightarrow> instant \<Rightarrow> string" where
  "isoSeconds toISOString d = takeWhile (\<lambda>c. c \<noteq> CHR ''.'') (toISOString d) @ ''Z''"

definition isFallbackError :: "JsError \<Rightarrow> bool" where
  "isFallbackError e =
     ((message e \<noteq> [] \<and> (includesStr (message e) ''403'' \<or> includesStr (message e) ''400''))
      \<or> False)"

definition listEndpointOf :: "string \<Rightarrow> string" where
  "listEndpointOf fromStr =
     ''/v2/tickets'' @ ''?''
     @ urlSearchParams [(''updated_since'', fromStr), (''include'', ''description,stats,requester''),
                        (''order_by'', ''updated_at''), (''order_type'', ''asc'')]"

definition searchEndpointOf :: "string \<Rightarrow> string \<Rightarrow> string" where
  "searchEndpointOf fromSearch toSearch =
     ''/v2/search/tickets?query=''
     @ encodeURIComponent ([CHR 0x22] @ ''updated_at:>'' @ [CHR 0x27] @ fromSearch @ [CHR 0x27]
                           @ '' AND updated_at:<'' @ [CHR 0x27] @ toSearch @ [CHR 0x27]
                           @ [CHR 0x22])"

definition getTicketsUpdatedInPeriod ::
  "('a Response \<Rightarrow> string) \<Rightarrow> 'a world \<Rightarrow> (instant \<Rightarrow> string) \<Rightarrow> ('a \<Rightarrow> instant) \<Rightarrow>
     instant \<Rightarrow> instant \<Rightarrow> JsError + 'a list" where
  "getTicketsUpdatedInPeriod parseApiError world toISOString updatedAt fromDate toDate =
     (let fromStr = isoSeconds toISOString fromDate
      in case fetchPaginatedFreshdeskAPI parseApiError world (listEndpointOf fromStr) 300 of
           Inr tickets \<Rightarrow>
             Inr (filter (\<lambda>t. updatedAt t \<le> toDate \<and> updatedAt t \<ge> fromDate) tickets)
         | Inl e \<Rightarrow>
             if isFallbackError e
             then fetchPaginatedFreshdeskAPI parseApiError world
                    (searchEndpointOf (isoSeconds toISOString fromDate)
                       (isoSeconds toISOString toDate)) 10
             else Inl e)"


subsection \<open>Notions and inputs used to state the properties of the service\<close>



definition jsonResponse :: "nat \<Rightarrow> 'a json \<Rightarrow> 'a Response" where
  "jsonResponse st j =
     \<lparr>statusCode = st, contentType = Some ''application/json; charset=utf-8'', retryAfter = None,
      bodyText = [], json = j\<rparr>"





text \<open>
  A proxy whose route is missing answers the first request with an HTML page and status
  404; a server that is busy once and then has no route.
\<close>

definition htmlNotFound :: "nat Response" where
  "htmlNotFound =
     \<lparr>statusCode = 404, contentType = Some ''text/html'', retryAfter = None,
      bodyText = ''Cannot GET /api/v2/tickets'', json = JInvalid\<rparr>"

definition busyThenNoRoute :: "nat \<Rightarrow> nat fetchOutcome" where
  "busyThenNoRoute k =
     (if k = 0 then Responds ((jsonResponse 429 JOther)\<lparr>retryAfter := Some ''2''\<rparr>)
      else Responds htmlNotFound)"

text \<open>
  A helpdesk whose list endpoint answers with the given status (403 or 400) and whose search
  endpoint serves one ticket; the period starts on 1 January 2024.
\<close>

definition rejectingList :: "nat \<Rightarrow> nat world" where
  "rejectingList st url k =
     (if includesStr url ''/search/''
      then Responds (jsonResponse 200 (JSearch (Some [42]) (Some 1)))
      else Responds (jsonResponse st JOther))"

definition isoJanuary :: "instant \<Rightarrow> string" where
  "isoJanuary d = (if d = 0 then ''2024-01-01T00:00:00.000Z'' else ''2024-01-08T00:00:00.000Z'')"

definition updatedAtNoon :: "nat \<Rightarrow> instant" where
  "updatedAtNoon t = 1"

section \<open>Properties of the time estimate\<close>

lemma ceil_ge_min: "0 \<le> (mn::real) \<Longrightarrow> mn \<le> of_int \<lceil>mn * 1.5\<rceil>"
proof -
  assume "0 \<le> mn"
  then have "mn \<le> mn * 1.5" by simp
  also have "\<dots> \<le> of_int \<lceil>mn * 1.5\<rceil>" by (rule le_of_int_ceiling)
  finally show ?thesis .
qed

lemma constrain_fst: "fst (constrainTimeEstimate mn mx) = mn"
  by (simp add: constrainTimeEstimate_def Let_def)

lemma constrain_snd_cases:
  "snd (constrainTimeEstimate mn mx) =
     (if mx > mn * 1.5 then (if of_int \<lceil>mn * 1.5\<rceil> < mn then mn else of_int \<lceil>mn * 1.5\<rceil>)
      else if mx < mn then mn else mx)"
  by (simp add: constrainTimeEstimate_def Let_def)

lemma clamp_bounds:
  fixes h k mn mx :: real
  assumes "mn \<le> k" "h \<le> k"
  shows "mn \<le> (if mx > h then (if k < mn then mn else k) else if mx < mn then mn else mx)"
    and "(if mx > h then (if k < mn then mn else k) else if mx < mn then mn else mx) \<le> k"
  using assms by auto

lemma clamp_fix:
  fixes h k mn mx r :: real
  assumes "mn \<le> h" "h \<le> k"
    and "r = (if mx > h then (if k < mn then mn else k) else if mx < mn then mn else mx)"
  shows "(if r > h then (if k < mn then mn else k) else if r < mn then mn else r) = r"
  using assms by auto

lemma constrain_bounds:
  assumes "0 \<le> mn"
  shows "mn \<le> snd (constrainTimeEstimate mn mx)"
    and "snd (constrainTimeEstimate mn mx) \<le> of_int \<lceil>1.5 * mn\<rceil>"
proof -
  have c: "mn \<le> of_int \<lceil>mn * 1.5\<rceil>" using assms by (rule ceil_ge_min)
  have d: "mn * 1.5 \<le> of_int \<lceil>mn * 1.5\<rceil>" by (rule le_of_int_ceiling)
  have e: "(1.5::real) * mn = mn * 1.5" by (simp only: mult.commute)
  show "mn \<le> snd (constrainTimeEstimate mn mx)"
    unfolding constrain_snd_cases by (rule clamp_bounds(1)[OF c d])
  show "snd (constrainTimeEstimate mn mx) \<le> of_int \<lceil>1.5 * mn\<rceil>"
    unfolding constrain_snd_cases e by (rule clamp_bounds(2)[OF c d])
qed

text \<open>
  C10. \<open>constrainTimeEstimate\<close> keeps its first argument and is idempotent on non-negative
  inputs: if it returns \<open>(min', max')\<close> for non-negative \<open>min\<close> and \<open>max\<close>, then \<open>min' = min\<close>
  and applying it to \<open>(min', max')\<close> returns \<open>(min', max')\<close> again.
\<close>

theorem constrainTimeEstimate_idempotent:
  assumes "0 \<le> mn" and "0 \<le> mx" and "constrainTimeEstimate mn mx = (mn', mx')"
  shows "mn' = mn \<and> constrainTimeEstimate mn' mx' = (mn', mx')"
proof -
  have c: "mn \<le> mn * 1.5" using assms(1) by simp
  have d: "mn * 1.5 \<le> of_int \<lceil>mn * 1.5\<rceil>" by (rule le_of_int_ceiling)
  have m: "mn' = mn" using assms(3) constrain_fst[of mn mx] by simp
  have x: "mx' = snd (constrainTimeEstimate mn mx)" using assms(3) by simp
  have "snd (constrainTimeEstimate mn mx') = mx'"
    unfolding constrain_snd_cases[of mn mx']
    by (rule clamp_fix[OF c d]) (simp only: x constrain_snd_cases)
  then have "constrainTimeEstimate mn mx' = (mn, mx')"
    using constrain_fst[of mn mx'] by (metis prod.collapse)
  with m show ?thesis by simp
qed

theorem constrainTimeEstimate_idempotent_witness:
  "(0::real) \<le> 10 \<and> (0::real) \<le> 40 \<and> constrainTimeEstimate 10 40 = (10, 15)
   \<and> constrainTimeEstimate 10 15 = (10, 15)"
proof -
  have e: "constrainTimeEstimate 10 40 = (10, 15)"
    by (simp add: constrainTimeEstimate_def)
  show ?thesis
    using constrainTimeEstimate_idempotent[of 10 40 10 15] e by simp
qed

section \<open>Properties of the aggregation engine\<close>

subsection \<open>Association lists and invariants of the two passes\<close>

lemma in_set_updateD:
  "p \<in> set (AList.update k v al) \<Longrightarrow> p = (k, v) \<or> p \<in> set al"
  by (induction al) (auto split: if_splits)

lemma in_set_map_entryD:
  "p \<in> set (AList.map_entry k f al) \<Longrightarrow> p \<in> set al \<or> (\<exists>v. (k, v) \<in> set al \<and> p = (k, f v))"
  by (induction al) (auto split: if_splits)

lemma allAgents_update:
  "allAgents P act \<Longrightarrow> (\<And>k d. P k d \<Longrightarrow> Q k d) \<Longrightarrow> Q k v \<Longrightarrow> allAgents Q (AList.update k v act)"
  unfolding allAgents_def by (fastforce dest!: in_set_updateD)

lemma allAgents_map_entry:
  "allAgents P act \<Longrightarrow> (\<And>v. P k v \<Longrightarrow> P k (f v)) \<Longrightarrow> allAgents P (AList.map_entry k f act)"
  unfolding allAgents_def by (fastforce dest: in_set_map_entryD)

lemma allAgents_lookup:
  "allAgents P act \<Longrightarrow> map_of act k = Some d \<Longrightarrow> P k d"
  unfolding allAgents_def by (auto dest: map_of_SomeD)

lemma allAgents_mono:
  "allAgents P act \<Longrightarrow> (\<And>k d. P k d \<Longrightarrow> Q k d) \<Longrightarrow> allAgents Q act"
  unfolding allAgents_def by auto

lemma allAgents_initial:
  assumes "\<And>k n. P k (initialAgentData n)"
  shows "allAgents P (initialActivity agentMap)"
proof -
  have "allAgents P acc \<Longrightarrow> allAgents P (fold (\<lambda>(i, name) acc. AList.update i (initialAgentData name) acc) xs acc)" for xs acc
    by (induction xs arbitrary: acc) (auto intro: allAgents_update assms)
  moreover have "allAgents P []" by (simp add: allAgents_def)
  ultimately show ?thesis unfolding initialActivity_def by blast
qed

lemma allAgents_pass1Conversation:
  assumes "allAgents P act"
    and "\<And>d. P (user_id c) d \<Longrightarrow> qualifying agentMap s e c \<Longrightarrow> P (user_id c) (recordConversation f tid c d)"
  shows "allAgents P (snd (pass1Conversation f agentMap s e tid c (w, act)))"
proof (cases "qualifying agentMap s e c \<and> mapHas act (user_id c)")
  case False
  then show ?thesis using assms(1) by (auto simp: pass1Conversation_def qualifying_def)
next
  case True
  then obtain d where d: "map_of act (user_id c) = Some d" by (auto simp: mapHas_def)
  have "P (user_id c) (recordConversation f tid c d)"
    using assms(2) allAgents_lookup[OF assms(1) d] True by blast
  then have "allAgents P (AList.update (user_id c) (recordConversation f tid c d) act)"
    using assms(1) allAgents_update by blast
  then show ?thesis using True d by (simp add: pass1Conversation_def qualifying_def)
qed

lemma allAgents_pass1Conversations:
  assumes "allAgents P act"
    and "\<And>c d. c \<in> set cs \<Longrightarrow> P (user_id c) d \<Longrightarrow> qualifying agentMap s e c
           \<Longrightarrow> P (user_id c) (recordConversation f tid c d)"
  shows "allAgents P (snd (fold (pass1Conversation f agentMap s e tid) cs (w, act)))"
  using assms
proof (induction cs arbitrary: w act)
  case Nil
  then show ?case by simp
next
  case (Cons c cs)
  obtain w' act' where st: "pass1Conversation f agentMap s e tid c (w, act) = (w', act')"
    by (cases "pass1Conversation f agentMap s e tid c (w, act)")
  have "allAgents P (snd (pass1Conversation f agentMap s e tid c (w, act)))"
    by (rule allAgents_pass1Conversation[OF Cons.prems(1)]) (simp add: Cons.prems(2))
  then have a: "allAgents P act'" by (simp add: st)
  have "allAgents P (snd (fold (pass1Conversation f agentMap s e tid) cs (w', act')))"
    by (rule Cons.IH[OF a]) (simp add: Cons.prems(2))
  then show ?case by (simp add: st)
qed

lemma allAgents_addWorked_fold:
  assumes "allAgents P act" and "\<And>k d. P k d \<Longrightarrow> P k (addWorked gid d)"
  shows "allAgents P (fold (\<lambda>aid a. AList.map_entry aid (addWorked gid) a) ws act)"
  using assms(1)
  by (induction ws arbitrary: act) (auto intro: allAgents_map_entry assms(2))

lemma allAgents_pass1Ticket:
  assumes "allAgents P act"
    and "\<And>c d. c \<in> set (conversations t) \<Longrightarrow> P (user_id c) d \<Longrightarrow> qualifying agentMap s e c
           \<Longrightarrow> P (user_id c) (recordConversation f (ticket_id t) c d)"
    and "\<And>k d. P k d \<Longrightarrow> P k (addWorked (group_id t) d)"
  shows "allAgents P (pass1Ticket f agentMap s e t act)"
proof -
  obtain w' act' where st:
    "fold (pass1Conversation f agentMap s e (ticket_id t)) (conversations t) ([], act) = (w', act')"
    by (cases "fold (pass1Conversation f agentMap s e (ticket_id t)) (conversations t) ([], act)")
  have "allAgents P (snd (fold (pass1Conversation f agentMap s e (ticket_id t)) (conversations t) ([], act)))"
    by (rule allAgents_pass1Conversations[OF assms(1)]) (rule assms(2))
  then have "allAgents P act'" by (simp add: st)
  then have "allAgents P (fold (\<lambda>aid a. AList.map_entry aid (addWorked (group_id t)) a) w' act')"
    by (rule allAgents_addWorked_fold) (rule assms(3))
  then show ?thesis by (simp add: pass1Ticket_def st)
qed

lemma allAgents_pass1:
  assumes "allAgents P act"
    and "\<And>t c d. t \<in> set ts \<Longrightarrow> c \<in> set (conversations t) \<Longrightarrow> P (user_id c) d
           \<Longrightarrow> qualifying agentMap s e c
           \<Longrightarrow> P (user_id c) (recordConversation f (ticket_id t) c d)"
    and "\<And>k d gid. P k d \<Longrightarrow> P k (addWorked gid d)"
  shows "allAgents P (fold (pass1Ticket f agentMap s e) ts act)"
  using assms(1,2)
proof (induction ts arbitrary: act)
  case Nil
  then show ?case by simp
next
  case (Cons t ts)
  have "allAgents P (pass1Ticket f agentMap s e t act)"
    by (rule allAgents_pass1Ticket[OF Cons.prems(1)]) (auto intro: Cons.prems(2) assms(3))
  then have "allAgents P (fold (pass1Ticket f agentMap s e) ts (pass1Ticket f agentMap s e t act))"
    by (rule Cons.IH) (auto intro: Cons.prems(2))
  then show ?case by simp
qed

lemma pass2Ticket_cases:
  "pass2Ticket f agentMap s e t act =
     (if closes agentMap s e t act
      then AList.update (responder_id t) (recordClosure f t (the (map_of act (responder_id t)))) act
      else act)"
  by (auto simp: pass2Ticket_def closes_def mapHas_def split: option.splits)

lemma allAgents_pass2Ticket:
  assumes "allAgents P act"
    and "\<And>k d. P k d \<Longrightarrow> Q k d"
    and "\<And>d. P (responder_id t) d \<Longrightarrow> ticket_id t \<in> set (ticketIds d)
           \<Longrightarrow> Q (responder_id t) (recordClosure f t d)"
  shows "allAgents Q (pass2Ticket f agentMap s e t act)"
proof (cases "closes agentMap s e t act")
  case False
  then show ?thesis using assms(1,2) by (simp add: pass2Ticket_cases allAgents_mono)
next
  case True
  then obtain ad where ad: "map_of act (responder_id t) = Some ad" "ticket_id t \<in> set (ticketIds ad)"
    by (auto simp: closes_def)
  have "Q (responder_id t) (recordClosure f t ad)"
    using assms(3) allAgents_lookup[OF assms(1) ad(1)] ad(2) by blast
  then have "allAgents Q (AList.update (responder_id t) (recordClosure f t ad) act)"
    using assms(1,2) allAgents_update by blast
  then show ?thesis using True ad by (simp add: pass2Ticket_cases)
qed

lemma ticketIds_recordClosure [simp]: "ticketIds (recordClosure f t d) = ticketIds d"
  by (simp add: recordClosure_def Let_def)

lemma totalClosed_recordClosure [simp]: "totalClosed (recordClosure f t d) = totalClosed d + 1"
  by (simp add: recordClosure_def Let_def)

lemma ticketIds_addWorked [simp]: "ticketIds (addWorked g d) = ticketIds d"
  by (simp add: addWorked_def Let_def)

lemma totalClosed_addWorked [simp]: "totalClosed (addWorked g d) = totalClosed d"
  by (simp add: addWorked_def Let_def)

lemma ticketIds_recordConversation [simp]:
  "ticketIds (recordConversation f tid c d) = setAdd tid (ticketIds d)"
  by (simp add: recordConversation_def Let_def)

lemma totalClosed_recordConversation [simp]:
  "totalClosed (recordConversation f tid c d) = totalClosed d"
  by (simp add: recordConversation_def Let_def)

lemma distinct_setAdd: "distinct xs \<Longrightarrow> distinct (setAdd x xs)"
  by (simp add: setAdd_def)

lemma set_setAdd [simp]: "set (setAdd x xs) = insert x (set xs)"
  by (auto simp: setAdd_def)



subsection \<open>Closures never exceed touched tickets\<close>

lemma count_touched_le:
  assumes "distinct (map ticket_id ts)" and "distinct ids"
  shows "length (filter (\<lambda>t. ticket_id t \<in> set ids) ts) \<le> length ids"
proof -
  have "length (filter (\<lambda>t. ticket_id t \<in> set ids) ts)
        = length (filter (\<lambda>i. i \<in> set ids) (map ticket_id ts))"
    by (simp add: filter_map comp_def)
  also have "\<dots> = card (set (filter (\<lambda>i. i \<in> set ids) (map ticket_id ts)))"
    by (rule distinct_card[symmetric]) (rule distinct_filter[OF assms(1)])
  also have "\<dots> \<le> card (set ids)"
    by (rule card_mono) auto
  also have "\<dots> = length ids"
    using assms(2) by (simp add: distinct_card)
  finally show ?thesis .
qed

lemma pass2_budget:
  "allAgents (budget ts) act \<Longrightarrow> allAgents (budget []) (fold (pass2Ticket f agentMap s e) ts act)"
proof (induction ts arbitrary: act)
  case Nil
  then show ?case by simp
next
  case (Cons t ts)
  have "allAgents (budget ts) (pass2Ticket f agentMap s e t act)"
    by (rule allAgents_pass2Ticket[OF Cons.prems]) (auto simp: budget_def split: if_splits)
  then show ?case using Cons.IH by simp
qed

lemma pass1_fresh:
  "allAgents (\<lambda>k d. totalClosed d = 0 \<and> distinct (ticketIds d))
     (fold (pass1Ticket f agentMap s e) ts (initialActivity agentMap))"
proof (rule allAgents_pass1)
  show "allAgents (\<lambda>k d. totalClosed d = 0 \<and> distinct (ticketIds d)) (initialActivity agentMap)"
    by (rule allAgents_initial) (simp add: initialAgentData_def)
qed (auto simp: distinct_setAdd)

lemma aggregate_closed_le:
  assumes "distinct (map ticket_id tickets)"
  shows "allAgents (\<lambda>k d. totalClosed d \<le> length (ticketIds d))
           (aggregate f tickets agentMap s e)"
proof -
  have "allAgents (budget tickets) (fold (pass1Ticket f agentMap s e) tickets (initialActivity agentMap))"
    by (rule allAgents_mono[OF pass1_fresh]) (simp add: budget_def count_touched_le[OF assms])
  then have "allAgents (budget []) (aggregate f tickets agentMap s e)"
    unfolding aggregate_def by (rule pass2_budget)
  then show ?thesis by (rule allAgents_mono) (simp add: budget_def)
qed

lemma in_calculateD:
  assumes "x \<in> set (calculateAllAgentActivity f tickets agentMap s e groupMap)"
  obtains k d where "(k, d) \<in> set (aggregate f tickets agentMap s e)"
    and "x = agentSummary groupMap (k, d)"
  using assms by (auto simp: calculateAllAgentActivity_def)


text \<open>
  C9. For a ticket list with pairwise distinct ticket ids, every summary returned by
  \<open>calculateAllAgentActivity\<close> has \<open>totalClosed \<le> ticketCount\<close>.
\<close>

theorem totalClosed_le_ticketCount:
  assumes "distinct (map ticket_id tickets)"
    and "summary \<in> set (calculateAllAgentActivity f tickets agentMap s e groupMap)"
  shows "totalClosed_s summary \<le> ticketCount summary"
proof -
  from assms(2) obtain k d where kd: "(k, d) \<in> set (aggregate f tickets agentMap s e)"
    and x: "summary = agentSummary groupMap (k, d)" by (rule in_calculateD)
  have "totalClosed d \<le> length (ticketIds d)"
    using aggregate_closed_le[OF assms(1), of f agentMap s e] kd by (auto simp: allAgents_def)
  then show ?thesis by (simp add: x agentSummary_def Let_def)
qed


lemma scenario100_nonempty: "scenario100 \<noteq> []"
  by code_simp

theorem totalClosed_le_ticketCount_witness:
  "distinct (map ticket_id [ticket100])
   \<and> hd scenario100 \<in> set scenario100
   \<and> totalClosed_s (hd scenario100) \<le> ticketCount (hd scenario100)"
proof -
  have d: "distinct (map ticket_id [ticket100])" by simp
  have m: "hd scenario100 \<in> set (calculateAllAgentActivity dayNumber [ticket100]
              agentsAB 1000 9000 [(7, ''Diesel'')])"
    using scenario100_nonempty by (simp add: scenario100_def)
  show ?thesis
    using totalClosed_le_ticketCount[OF d m] d m by (simp add: scenario100_def)
qed

subsection \<open>Bounds of the emitted estimates\<close>

lemma summary_cTotal:
  "cTotal (agentSummary groupMap (k, d)) = constrainTimeEstimate (real (totalMin d)) (real (totalMax d))"
  "estimatedTimeRange (agentSummary groupMap (k, d))
     = formatTimeRange (fst (cTotal (agentSummary groupMap (k, d)))) (snd (cTotal (agentSummary groupMap (k, d))))"
  by (simp_all add: agentSummary_def Let_def)

lemma summary_daily:
  assumes "ds \<in> set (dailyBreakdown (agentSummary groupMap (k, d)))"
  obtains n m where "totalMin_ds ds = fst (constrainTimeEstimate (real n) (real m))"
    and "totalMax_ds ds = snd (constrainTimeEstimate (real n) (real m))"
    and "estimatedTimeRange_ds ds = formatTimeRange (totalMin_ds ds) (totalMax_ds ds)"
  using assms by (auto simp: agentSummary_def Let_def dailySummary_def)


text \<open>
  C4. For non-negative \<open>min\<close> and \<open>max\<close>, \<open>constrainTimeEstimate\<close> returns \<open>(min, max')\<close>
  with \<open>min \<le> max' \<le> ceil (1.5 * min)\<close>. Hence every per-agent total estimate (the pair
  \<open>cTotal\<close> that \<open>estimatedTimeRange\<close> renders) and every daily-breakdown estimate emitted by
  \<open>calculateAllAgentActivity\<close> satisfies the bound; and for \<open>min = 0\<close> the result is \<open>(0, 0)\<close>.
\<close>

theorem time_estimate_bounds:
  "(\<forall>mn mx. 0 \<le> mn \<longrightarrow> 0 \<le> mx \<longrightarrow>
      fst (constrainTimeEstimate mn mx) = mn
      \<and> mn \<le> snd (constrainTimeEstimate mn mx)
      \<and> snd (constrainTimeEstimate mn mx) \<le> of_int \<lceil>1.5 * mn\<rceil>)
   \<and> (\<forall>x \<in> set (calculateAllAgentActivity f tickets agentMap s e groupMap).
        estimatedTimeRange x = formatTimeRange (fst (cTotal x)) (snd (cTotal x))
        \<and> 0 \<le> fst (cTotal x) \<and> fst (cTotal x) \<le> snd (cTotal x)
        \<and> snd (cTotal x) \<le> of_int \<lceil>1.5 * fst (cTotal x)\<rceil>
        \<and> (\<forall>ds \<in> set (dailyBreakdown x).
              estimatedTimeRange_ds ds = formatTimeRange (totalMin_ds ds) (totalMax_ds ds)
              \<and> 0 \<le> totalMin_ds ds \<and> totalMin_ds ds \<le> totalMax_ds ds
              \<and> totalMax_ds ds \<le> of_int \<lceil>1.5 * totalMin_ds ds\<rceil>))
   \<and> (\<forall>mx. 0 \<le> mx \<longrightarrow> constrainTimeEstimate 0 mx = (0, 0))"
proof (intro conjI allI impI ballI)
  fix mn mx :: real
  assume "0 \<le> mn"
  then show "mn \<le> snd (constrainTimeEstimate mn mx)"
    and "snd (constrainTimeEstimate mn mx) \<le> of_int \<lceil>1.5 * mn\<rceil>"
    by (rule constrain_bounds)+
  show "fst (constrainTimeEstimate mn mx) = mn" by (rule constrain_fst)
next
  fix mx :: real
  assume "0 \<le> mx"
  then show "constrainTimeEstimate 0 mx = (0, 0)"
    by (simp add: constrainTimeEstimate_def)
next
  fix x
  assume "x \<in> set (calculateAllAgentActivity f tickets agentMap s e groupMap)"
  then obtain k d where x: "x = agentSummary groupMap (k, d)" by (rule in_calculateD)
  have n: "(0::real) \<le> real (totalMin d)" by simp
  show "estimatedTimeRange x = formatTimeRange (fst (cTotal x)) (snd (cTotal x))"
    unfolding x by (rule summary_cTotal(2))
  show "0 \<le> fst (cTotal x)"
    unfolding x summary_cTotal(1) constrain_fst by simp
  show "fst (cTotal x) \<le> snd (cTotal x)"
    unfolding x summary_cTotal(1) constrain_fst by (rule constrain_bounds(1)[OF n])
  show "snd (cTotal x) \<le> of_int \<lceil>1.5 * fst (cTotal x)\<rceil>"
    unfolding x summary_cTotal(1) constrain_fst by (rule constrain_bounds(2)[OF n])
  fix ds
  assume "ds \<in> set (dailyBreakdown x)"
  then obtain n m where mn: "totalMin_ds ds = fst (constrainTimeEstimate (real n) (real m))"
    and mx: "totalMax_ds ds = snd (constrainTimeEstimate (real n) (real m))"
    and r: "estimatedTimeRange_ds ds = formatTimeRange (totalMin_ds ds) (totalMax_ds ds)"
    unfolding x by (rule summary_daily)
  have n: "(0::real) \<le> real n" by simp
  show "estimatedTimeRange_ds ds = formatTimeRange (totalMin_ds ds) (totalMax_ds ds)" by (rule r)
  show "0 \<le> totalMin_ds ds" unfolding mn constrain_fst by simp
  show "totalMin_ds ds \<le> totalMax_ds ds"
    unfolding mn mx constrain_fst by (rule constrain_bounds(1)[OF n])
  show "totalMax_ds ds \<le> of_int \<lceil>1.5 * totalMin_ds ds\<rceil>"
    unfolding mn mx constrain_fst by (rule constrain_bounds(2)[OF n])
qed



theorem time_estimate_bounds_witness:
  "(0::real) \<le> 10 \<and> (0::real) \<le> 40
   \<and> 10 \<le> snd (constrainTimeEstimate 10 40)
   \<and> snd (constrainTimeEstimate 10 40) \<le> of_int \<lceil>1.5 * (10::real)\<rceil>
   \<and> hd scenario100 \<in> set scenario100
   \<and> fst (cTotal (hd scenario100)) \<le> snd (cTotal (hd scenario100))
   \<and> snd (cTotal (hd scenario100)) \<le> of_int \<lceil>1.5 * fst (cTotal (hd scenario100))\<rceil>
   \<and> constrainTimeEstimate 0 5 = (0, 0)"
proof -
  note T = time_estimate_bounds[of dayNumber "[ticket100]" agentsAB 1000 9000
      "[(7, ''Diesel'')]", folded scenario100_def]
  have m: "hd scenario100 \<in> set scenario100"
    using scenario100_nonempty by simp
  from T have a: "(0::real) \<le> 10 \<longrightarrow> (0::real) \<le> 40 \<longrightarrow>
      10 \<le> snd (constrainTimeEstimate 10 40)
      \<and> snd (constrainTimeEstimate 10 40) \<le> of_int \<lceil>1.5 * (10::real)\<rceil>"
    by blast
  from T m have b: "fst (cTotal (hd scenario100)) \<le> snd (cTotal (hd scenario100))
      \<and> snd (cTotal (hd scenario100)) \<le> of_int \<lceil>1.5 * fst (cTotal (hd scenario100))\<rceil>"
    by blast
  from T have c: "(0::real) \<le> 5 \<longrightarrow> constrainTimeEstimate 0 5 = (0, 0)"
    by blast
  from a b c m show ?thesis by simp
qed

subsection \<open>The closure guard\<close>

lemma pass1_untouched:
  assumes "\<forall>t' \<in> set ts. ticket_id t' = tid \<longrightarrow>
             (\<forall>c \<in> set (conversations t'). user_id c = r \<longrightarrow> \<not> qualifying agentMap s e c)"
  shows "allAgents (untouched r tid) (fold (pass1Ticket f agentMap s e) ts (initialActivity agentMap))"
proof (rule allAgents_pass1)
  show "allAgents (untouched r tid) (initialActivity agentMap)"
    by (rule allAgents_initial) (simp add: initialAgentData_def untouched_def)
next
  fix t c d
  assume "t \<in> set ts" "c \<in> set (conversations t)" "untouched r tid (user_id c) d"
    "qualifying agentMap s e c"
  with assms show "untouched r tid (user_id c) (recordConversation f (ticket_id t) c d)"
    by (auto simp: untouched_def)
qed (simp add: untouched_def)

lemma pass2_untouched:
  "allAgents (untouched r tid) act \<Longrightarrow>
   allAgents (untouched r tid) (fold (pass2Ticket f agentMap s e) ts act)"
proof (induction ts arbitrary: act)
  case Nil
  then show ?case by simp
next
  case (Cons t ts)
  have "allAgents (untouched r tid) (pass2Ticket f agentMap s e t act)"
    by (rule allAgents_pass2Ticket[OF Cons.prems]) (auto simp: untouched_def)
  then show ?case using Cons.IH by simp
qed

lemma pass2Ticket_untouched:
  assumes "allAgents (untouched (responder_id t) (ticket_id t)) act"
  shows "pass2Ticket f agentMap s e t act = act"
proof -
  have "\<not> closes agentMap s e t act"
    using assms by (auto simp: closes_def untouched_def dest!: allAgents_lookup)
  then show ?thesis by (simp add: pass2Ticket_cases)
qed

lemma pass1Ticket_status [simp]:
  "pass1Ticket f agentMap s e (t\<lparr>status := x\<rparr>) = pass1Ticket f agentMap s e t"
  unfolding pass1Ticket_def by simp

lemma pass2Ticket_open:
  "status t \<noteq> 4 \<Longrightarrow> status t \<noteq> 5 \<Longrightarrow> pass2Ticket f agentMap s e t act = act"
  by (simp add: pass2Ticket_def)


text \<open>
  C3. A ticket is identified by its id. Let a ticket of the list have status 4 or 5 and its
  closure timestamp (\<open>closed_at\<close>, else \<open>resolved_at\<close>, else \<open>updated_at\<close>) in the window,
  and let its responder have no qualifying conversation on that ticket within the window,
  that is, on no entry of the list that carries the ticket's id. Then
  \<open>calculateAllAgentActivity\<close> credits the responder with no closure for it: the closure step
  of pass 2 for this ticket leaves the whole table unchanged (so \<open>totalClosed\<close>, the daily
  closed counts and the group closed counts are as before), and the report is the one
  obtained when the ticket is not closed at all.
\<close>

theorem closure_needs_touch:
  assumes "tickets = pre @ t # post"
    and "status t = 4 \<or> status t = 5"
    and "inWindow s e (closedAtOf t)"
    and "\<forall>t' \<in> set tickets. ticket_id t' = ticket_id t \<longrightarrow>
           (\<forall>c \<in> set (conversations t').
               user_id c = responder_id t \<longrightarrow> \<not> qualifying agentMap s e c)"
  shows "(let reached = fold (pass2Ticket f agentMap s e) pre
                          (fold (pass1Ticket f agentMap s e) tickets (initialActivity agentMap))
          in pass2Ticket f agentMap s e t reached = reached)
       \<and> calculateAllAgentActivity f tickets agentMap s e groupMap
           = calculateAllAgentActivity f (pre @ t\<lparr>status := 2\<rparr> # post) agentMap s e groupMap"
proof -
  let ?p1 = "fold (pass1Ticket f agentMap s e) tickets (initialActivity agentMap)"
  let ?reached = "fold (pass2Ticket f agentMap s e) pre ?p1"
  have "allAgents (untouched (responder_id t) (ticket_id t)) ?p1"
    using assms(4) by (rule pass1_untouched)
  then have "allAgents (untouched (responder_id t) (ticket_id t)) ?reached"
    by (rule pass2_untouched)
  then have step: "pass2Ticket f agentMap s e t ?reached = ?reached"
    by (rule pass2Ticket_untouched)
  have p1: "fold (pass1Ticket f agentMap s e) (pre @ t\<lparr>status := 2\<rparr> # post) (initialActivity agentMap) = ?p1"
    by (simp add: assms(1))
  have "aggregate f tickets agentMap s e = aggregate f (pre @ t\<lparr>status := 2\<rparr> # post) agentMap s e"
    unfolding aggregate_def p1
    using step by (simp add: assms(1) pass2Ticket_open)
  then show ?thesis using step by (simp add: calculateAllAgentActivity_def Let_def)
qed

theorem closure_needs_touch_witness:
  "(status autoClosed200 = 4 \<or> status autoClosed200 = 5)
   \<and> inWindow 1000 9000 (closedAtOf autoClosed200)
   \<and> calculateAllAgentActivity dayNumber [ticket100, autoClosed200] agentsAB 1000 9000 []
       = calculateAllAgentActivity dayNumber [ticket100, autoClosed200\<lparr>status := 2\<rparr>]
           agentsAB 1000 9000 []"
proof -
  have l: "[ticket100, autoClosed200] = [ticket100] @ autoClosed200 # []" by simp
  have st: "status autoClosed200 = 4 \<or> status autoClosed200 = 5"
    by (simp add: autoClosed200_def)
  have w: "inWindow 1000 9000 (closedAtOf autoClosed200)"
    by (simp add: autoClosed200_def closedAtOf_def inWindow_def)
  have q: "\<forall>t' \<in> set [ticket100, autoClosed200]. ticket_id t' = ticket_id autoClosed200 \<longrightarrow>
           (\<forall>c \<in> set (conversations t').
               user_id c = responder_id autoClosed200 \<longrightarrow> \<not> qualifying agentsAB 1000 9000 c)"
    by code_simp
  show ?thesis
    using closure_needs_touch[OF l st w q, of dayNumber "[]"] st w by simp
qed

subsection \<open>The scenario of ticket 100\<close>

lemma spam_facts:
  "toLowerCase (trim ''marked as spam'') = ''marked as spam''"
  "includesStr ''marked as spam'' ''marked as spam''"
  "\<not> includesStr (toLowerCase ''marked as spam'') ''system''"
  by code_simp+

lemma length_toLowerCase [simp]: "length (toLowerCase b) = length b"
  by (simp add: toLowerCase_def)

lemma show_small: "showInt 0 = ''0''" "showInt 7 = ''7''" "showInt 11 = ''11''"
  by code_simp+

lemma fmt_7_11: "formatTimeRange 7 11 = ''0h 7m - 0h 11m''"
  by (simp add: formatTimeRange_def formatMinutesToHours_def show_small)

lemma c_7_11: "constrainTimeEstimate 7 11 = (7, 11)"
  by (simp add: constrainTimeEstimate_def)

lemma map_entry_update: "AList.map_entry k g (AList.update k v al) = AList.update k (g v) al"
  by (induction al) auto

lemma fold_update_keys:
  "fst ` set (fold (\<lambda>(i, name) acc. AList.update i (initialAgentData name) acc) xs acc)
     = fst ` set xs \<union> fst ` set acc"
proof (induction xs arbitrary: acc)
  case Nil
  then show ?case by simp
next
  case (Cons x xs)
  obtain i name where x: "x = (i, name)" by (cases x)
  have "fst ` set (AList.update i (initialAgentData name) acc) = {i} \<union> fst ` set acc"
    by (rule dom_update)
  then show ?case using Cons.IH[of "AList.update i (initialAgentData name) acc"]
    by (simp add: x Un_assoc)
qed

lemma initialActivity_keys: "fst ` set (initialActivity agentMap) = fst ` set agentMap"
  by (simp add: initialActivity_def fold_update_keys)

lemma fold_update_distinct:
  "distinct (map fst acc) \<Longrightarrow>
   distinct (map fst (fold (\<lambda>(i, name) acc. AList.update i (initialAgentData name) acc) xs acc))"
  by (induction xs arbitrary: acc) (auto simp: distinct_update)

lemma initialActivity_distinct: "distinct (map fst (initialActivity agentMap))"
  unfolding initialActivity_def by (rule fold_update_distinct) simp

lemma initialActivity_lookup:
  assumes "a \<in> fst ` set agentMap"
  obtains n where "map_of (initialActivity agentMap) a = Some (initialAgentData n)"
proof -
  have "a \<in> fst ` set (initialActivity agentMap)" using assms by (simp add: initialActivity_keys)
  then obtain d where d: "map_of (initialActivity agentMap) a = Some d"
    by (metis domD dom_map_of_conv_image_fst)
  have "allAgents (\<lambda>k d. \<exists>n. d = initialAgentData n) (initialActivity agentMap)"
    by (rule allAgents_initial) auto
  then obtain n where "d = initialAgentData n" using d by (auto dest: allAgents_lookup)
  then show ?thesis using d that by blast
qed

lemma only_one_survives:
  assumes "distinct (map fst al)" and "a \<in> fst ` set al"
    and "\<And>k d. (k, d) \<in> set al \<Longrightarrow> k \<noteq> a \<Longrightarrow> \<not> P (h (k, d))" and "P (h (a, v))"
  shows "filter P (map h (AList.update a v al)) = [h (a, v)]"
  using assms
proof (induction al)
  case Nil
  then show ?case by simp
next
  case (Cons p al)
  obtain k d where p: "p = (k, d)" by (cases p)
  show ?case
  proof (cases "k = a")
    case True
    then have "a \<notin> fst ` set al" using Cons.prems(1) p by auto
    then have "\<And>k d. (k, d) \<in> set al \<Longrightarrow> k \<noteq> a" by force
    then have "filter P (map h al) = []" using Cons.prems(3) by (auto simp: filter_empty_conv)
    then show ?thesis using True p Cons.prems(4) by simp
  next
    case False
    then have "a \<in> fst ` set al" using Cons.prems(2) p by auto
    then have "filter P (map h (AList.update a v al)) = [h (a, v)]"
      using Cons.IH Cons.prems by auto
    moreover have "\<not> P (h (k, d))" using Cons.prems(3)[of k d] False p by simp
    ultimately show ?thesis using False p by simp
  qed
qed

lemma pass1Conversation_hit:
  assumes "inWindow s e (created_at c)" and "mapHas agentMap (user_id c)" and "\<not> isSystem c"
    and "map_of act (user_id c) = Some d"
  shows "pass1Conversation f agentMap s e tid c (w, act)
         = (setAdd (user_id c) w, AList.update (user_id c) (recordConversation f tid c d) act)"
  using assms by (simp add: pass1Conversation_def mapHas_def)

lemma pass1Ticket_two:
  assumes "conversations t = [ca, cb]"
    and "user_id ca = a" and "inWindow s e (created_at ca)" and "\<not> isSystem ca"
    and "user_id cb = a" and "inWindow s e (created_at cb)" and "\<not> isSystem cb"
    and "mapHas agentMap a" and "map_of init a = Some d0"
  shows "pass1Ticket f agentMap s e t init
         = AList.update a (addWorked (group_id t)
              (recordConversation f (ticket_id t) cb (recordConversation f (ticket_id t) ca d0))) init"
proof -
  have 1: "pass1Conversation f agentMap s e (ticket_id t) ca ([], init)
           = ([a], AList.update a (recordConversation f (ticket_id t) ca d0) init)"
    using pass1Conversation_hit[of s e ca agentMap init d0 f "ticket_id t" "[]"] assms
    by (simp add: setAdd_def)
  have 2: "pass1Conversation f agentMap s e (ticket_id t) cb
             ([a], AList.update a (recordConversation f (ticket_id t) ca d0) init)
           = ([a], AList.update a (recordConversation f (ticket_id t) cb
                      (recordConversation f (ticket_id t) ca d0)) init)"
    using pass1Conversation_hit[of s e cb agentMap
        "AList.update a (recordConversation f (ticket_id t) ca d0) init"
        "recordConversation f (ticket_id t) ca d0" f "ticket_id t" "[a]"] assms
    by (simp add: setAdd_def update_conv')
  show ?thesis
    by (simp add: pass1Ticket_def assms(1) 1 2 map_entry_update)
qed

lemma pass2Ticket_hit:
  assumes "status t = 5" and "inWindow s e (closedAtOf t)" and "mapHas agentMap (responder_id t)"
    and "ticket_id t \<in> set (ticketIds d)"
  shows "pass2Ticket f agentMap s e t (AList.update (responder_id t) d init)
         = AList.update (responder_id t) (recordClosure f t d) init"
  using assms by (simp add: pass2Ticket_def mapHas_def update_conv')

lemma recordConversation_counts:
  "totalResponses (recordConversation f tid c d) = totalResponses d + (if private_c c then 0 else 1)"
  "totalActions (recordConversation f tid c d) = totalActions d + (if private_c c then 1 else 0)"
  "totalMin (recordConversation f tid c d)
     = totalMin d + (if private_c c
                     then (if includesStr (case body_text c of None \<Rightarrow> [] | Some b \<Rightarrow> toLowerCase (trim b))
                                ''marked as spam'' then 1 else 2)
                     else (if length (case body_text c of None \<Rightarrow> [] | Some b \<Rightarrow> toLowerCase (trim b)) < 50
                           then 3 else 5))"
  "totalMax (recordConversation f tid c d)
     = totalMax d + (if private_c c
                     then (if includesStr (case body_text c of None \<Rightarrow> [] | Some b \<Rightarrow> toLowerCase (trim b))
                                ''marked as spam'' then 2 else 3)
                     else (if length (case body_text c of None \<Rightarrow> [] | Some b \<Rightarrow> toLowerCase (trim b)) < 50
                           then 4 else 7))"
  by (simp_all add: recordConversation_def Let_def)

lemma recordClosure_counts:
  "totalResponses (recordClosure f t d) = totalResponses d"
  "totalActions (recordClosure f t d) = totalActions d"
  "totalMin (recordClosure f t d) = totalMin d + 1"
  "totalMax (recordClosure f t d) = totalMax d + 2"
  by (simp_all add: recordClosure_def Let_def)

lemma addWorked_counts:
  "totalResponses (addWorked g d) = totalResponses d"
  "totalActions (addWorked g d) = totalActions d"
  "totalMin (addWorked g d) = totalMin d"
  "totalMax (addWorked g d) = totalMax d"
  by (simp_all add: addWorked_def Let_def)

lemma summary_counts:
  "agentId (agentSummary groupMap (k, d)) = k"
  "ticketCount (agentSummary groupMap (k, d)) = length (ticketIds d)"
  "totalResponses_s (agentSummary groupMap (k, d)) = totalResponses d"
  "totalActions_s (agentSummary groupMap (k, d)) = totalActions d"
  "totalClosed_s (agentSummary groupMap (k, d)) = totalClosed d"
  by (simp_all add: agentSummary_def Let_def)


text \<open>
  C5, as amended. One closed ticket with responder Agent A (a known agent) and \<open>closed_at\<close>
  in the window, with exactly two conversations of Agent A in the window, a public reply of
  80 characters (without surrounding white space and without "system") and a private note
  "marked as spam", yields exactly one record, for Agent A, with \<open>totalResponses = 1\<close>,
  \<open>totalActions = 1\<close>, \<open>totalClosed = 1\<close> and the estimate \<open>min = 7\<close>, \<open>max = 11\<close>: 5 to 7
  minutes for the reply, 1 to 2 for the note, 1 to 2 for the closure.
\<close>

theorem scenario_ticket100:
  assumes "status t = 5" and "responder_id t = a"
    and "stats t = Some st" and "closed_at st = Some closedAt" and "inWindow s e closedAt"
    and "conversations t = [c1, c2] \<or> conversations t = [c2, c1]"
    and "user_id c1 = a" and "inWindow s e (created_at c1)" and "\<not> private_c c1"
    and "body_text c1 = Some b" and "length b = 80" and "trim b = b"
    and "\<not> includesStr (toLowerCase b) ''system''"
    and "user_id c2 = a" and "inWindow s e (created_at c2)" and "private_c c2"
    and "body_text c2 = Some ''marked as spam''"
    and "a \<in> fst ` set agentMap"
  shows "map (\<lambda>x. (agentId x, ticketCount x, totalResponses_s x, totalActions_s x,
                    totalClosed_s x, cTotal x, estimatedTimeRange x))
           (calculateAllAgentActivity f [t] agentMap s e groupMap)
         = [(a, 1, 1, 1, 1, (7, 11), ''0h 7m - 0h 11m'')]"
proof -
  let ?init = "initialActivity agentMap"
  obtain n where d0: "map_of ?init a = Some (initialAgentData n)"
    using assms(18) by (rule initialActivity_lookup)
  have known: "mapHas agentMap a"
    using assms(18) by (metis mapHas_def dom_map_of_conv_image_fst domIff)
  have sys: "\<not> isSystem c1" "\<not> isSystem c2"
    using assms(10,13,17) by (simp_all add: isSystem_def spam_facts)
  have closedAt: "inWindow s e (closedAtOf t)"
    using assms(3,4,5) by (simp add: closedAtOf_def)
  obtain ca cb where order: "conversations t = [ca, cb]" "{ca, cb} = {c1, c2}"
    using assms(6) by auto
  then have cab: "(ca = c1 \<and> cb = c2) \<or> (ca = c2 \<and> cb = c1)"
    by (auto simp: doubleton_eq_iff)
  let ?d2 = "recordConversation f (ticket_id t) cb
               (recordConversation f (ticket_id t) ca (initialAgentData n))"
  let ?d3 = "addWorked (group_id t) ?d2"
  let ?d4 = "recordClosure f t ?d3"
  have p1: "pass1Ticket f agentMap s e t ?init = AList.update a ?d3 ?init"
    using cab assms(7,8,14,15) sys known d0 order(1)
    by (intro pass1Ticket_two) auto
  have "ticket_id t \<in> set (ticketIds ?d3)" by simp
  then have p2: "pass2Ticket f agentMap s e t (AList.update a ?d3 ?init) = AList.update a ?d4 ?init"
    using pass2Ticket_hit[of t s e agentMap ?d3 f ?init] assms(1,2) closedAt known by simp
  have agg: "aggregate f [t] agentMap s e = AList.update a ?d4 ?init"
    by (simp add: aggregate_def p1 p2)
  have ids: "ticketIds ?d4 = [ticket_id t]"
    by (simp add: initialAgentData_def setAdd_def)
  have cnt: "totalResponses ?d4 = 1" "totalActions ?d4 = 1" "totalClosed ?d4 = 1"
    "totalMin ?d4 = 7" "totalMax ?d4 = 11"
    using cab assms(9,10,11,12,16,17)
    by (auto simp: recordConversation_counts recordClosure_counts addWorked_counts
        initialAgentData_def spam_facts)
  let ?keep = "\<lambda>summary. ticketCount summary > 0 \<or> totalClosed_s summary > 0"
  have others: "\<not> ?keep (agentSummary groupMap (k, d))" if "(k, d) \<in> set ?init" for k d
  proof -
    have "allAgents (\<lambda>k d. \<exists>n. d = initialAgentData n) ?init"
      by (rule allAgents_initial) auto
    then have "\<exists>m. d = initialAgentData m" using that unfolding allAgents_def by blast
    then obtain m where "d = initialAgentData m" by blast
    then show ?thesis by (simp add: summary_counts initialAgentData_def)
  qed
  have one: "filter ?keep (map (agentSummary groupMap) (AList.update a ?d4 ?init))
             = [agentSummary groupMap (a, ?d4)]"
  proof (rule only_one_survives)
    show "distinct (map fst ?init)" by (rule initialActivity_distinct)
    show "a \<in> fst ` set ?init" using assms(18) by (simp add: initialActivity_keys)
    show "?keep (agentSummary groupMap (a, ?d4))" by (simp add: summary_counts ids)
  qed (use others in blast)
  have out: "calculateAllAgentActivity f [t] agentMap s e groupMap = [agentSummary groupMap (a, ?d4)]"
    by (simp add: calculateAllAgentActivity_def agg one)
  have est: "cTotal (agentSummary groupMap (a, ?d4)) = (7, 11)"
    "estimatedTimeRange (agentSummary groupMap (a, ?d4)) = ''0h 7m - 0h 11m''"
    unfolding summary_cTotal(2) unfolding summary_cTotal(1) cnt
    by (simp_all add: c_7_11 fmt_7_11)
  have fields: "agentId (agentSummary groupMap (a, ?d4)) = a"
    "ticketCount (agentSummary groupMap (a, ?d4)) = 1"
    "totalResponses_s (agentSummary groupMap (a, ?d4)) = 1"
    "totalActions_s (agentSummary groupMap (a, ?d4)) = 1"
    "totalClosed_s (agentSummary groupMap (a, ?d4)) = 1"
    unfolding summary_counts ids cnt by simp_all
  show ?thesis
    unfolding out by (simp add: fields est)
qed

theorem scenario_ticket100_witness:
  "status ticket100 = 5 \<and> responder_id ticket100 = 1
   \<and> inWindow 1000 9000 4000 \<and> inWindow 1000 9000 2000 \<and> inWindow 1000 9000 3000
   \<and> length reply80 = 80 \<and> trim reply80 = reply80
   \<and> \<not> includesStr (toLowerCase reply80) ''system''
   \<and> (1::int) \<in> fst ` set agentsAB
   \<and> map (\<lambda>x. (agentId x, ticketCount x, totalResponses_s x, totalActions_s x,
                 totalClosed_s x, cTotal x, estimatedTimeRange x)) scenario100
       = [(1, 1, 1, 1, 1, (7, 11), ''0h 7m - 0h 11m'')]"
proof -
  have w: "inWindow 1000 9000 4000" "inWindow 1000 9000 2000" "inWindow 1000 9000 3000"
    by (simp_all add: inWindow_def)
  have b: "length reply80 = 80" "trim reply80 = reply80"
    "\<not> includesStr (toLowerCase reply80) ''system''"
    by code_simp+
  have k: "(1::int) \<in> fst ` set agentsAB" by (simp add: agentsAB_def)
  have r: "map (\<lambda>x. (agentId x, ticketCount x, totalResponses_s x, totalActions_s x,
                 totalClosed_s x, cTotal x, estimatedTimeRange x)) scenario100
       = [(1, 1, 1, 1, 1, (7, 11), ''0h 7m - 0h 11m'')]"
    unfolding scenario100_def
    by (rule scenario_ticket100[where st = "\<lparr>resolved_at = None, closed_at = Some 4000\<rparr>"
          and closedAt = 4000 and b = reply80
          and ?c1.0 = "\<lparr>user_id = 1, body_text = Some reply80, created_at = 2000, private_c = False\<rparr>"
          and ?c2.0 = "\<lparr>user_id = 1, body_text = Some ''marked as spam'', created_at = 3000,
                        private_c = True\<rparr>"])
       (simp_all add: ticket100_def w b k)
  show ?thesis using w b k r by (simp add: ticket100_def)
qed

text \<open>
  C5 as stated expects \<open>min = 4\<close> and \<open>max = 7\<close>; the code yields \<open>7\<close> and \<open>11\<close> on the
  scenario.
\<close>

theorem scenario_ticket100_counterexample:
  "length scenario100 = 1
   \<and> totalResponses_s (hd scenario100) = 1
   \<and> totalActions_s (hd scenario100) = 1
   \<and> totalClosed_s (hd scenario100) = 1
   \<and> cTotal (hd scenario100) = (7, 11)
   \<and> cTotal (hd scenario100) \<noteq> (4, 7)"
  by code_simp

section \<open>Properties of the rate limiter\<close>

lemma processQueue_cases:
  obtains (backoff) "now < globalRetryAfter l" "processQueue now sa l = (l, Postponed (globalRetryAfter l - now + 500))"
  | (capacity) "\<not> now < globalRetryAfter l" "activeRequests l \<ge> maxConcurrent l" "processQueue now sa l = (l, AtCapacity)"
  | (window) d where "\<not> now < globalRetryAfter l" "activeRequests l < maxConcurrent l"
      "int (length (filter (\<lambda>t. now - t < windowMs l) (requestTimestamps l))) \<ge> maxPerWindow l"
      "processQueue now sa l = (l\<lparr>requestTimestamps := filter (\<lambda>t. now - t < windowMs l) (requestTimestamps l)\<rparr>, Postponed d)"
  | (empty) "\<not> now < globalRetryAfter l" "activeRequests l < maxConcurrent l"
      "int (length (filter (\<lambda>t. now - t < windowMs l) (requestTimestamps l))) < maxPerWindow l"
      "queue l = []"
      "processQueue now sa l = (l\<lparr>requestTimestamps := filter (\<lambda>t. now - t < windowMs l) (requestTimestamps l)\<rparr>, NothingQueued)"
  | (start) item rest where "\<not> now < globalRetryAfter l" "activeRequests l < maxConcurrent l"
      "int (length (filter (\<lambda>t. now - t < windowMs l) (requestTimestamps l))) < maxPerWindow l"
      "queue l = item # rest"
      "processQueue now sa l = (l\<lparr>requestTimestamps := filter (\<lambda>t. now - t < windowMs l) (requestTimestamps l) @ [sa],
          queue := rest, activeRequests := activeRequests l + 1\<rparr>, Started item)"
proof (cases "now < globalRetryAfter l")
  case True
  then show ?thesis using backoff by (simp add: processQueue_def)
next
  case nb: False
  show ?thesis
  proof (cases "activeRequests l \<ge> maxConcurrent l")
    case True
    then show ?thesis using nb capacity by (simp add: processQueue_def)
  next
    case nc: False
    show ?thesis
    proof (cases "int (length (filter (\<lambda>t. now - t < windowMs l) (requestTimestamps l))) \<ge> maxPerWindow l")
      case True
      then show ?thesis using nb nc window by (simp add: processQueue_def Let_def)
    next
      case nw: False
      show ?thesis
      proof (cases "queue l")
        case Nil
        then show ?thesis using nb nc nw empty by (simp add: processQueue_def Let_def)
      next
        case (Cons item rest)
        then show ?thesis using nb nc nw start[of item rest] by (simp add: processQueue_def Let_def)
      qed
    qed
  qed
qed


lemma filter_window_later:
  "now \<le> T \<Longrightarrow> filter (\<lambda>t. T - t < w) (filter (\<lambda>t. now - t < w) xs) = filter (\<lambda>t. T - t < (w::int)) xs"
  by (induction xs) auto

lemma filter_window_covered:
  "sa < a + w \<Longrightarrow> now \<le> sa \<Longrightarrow>
   filter (\<lambda>t. a \<le> t \<and> t < a + w) (filter (\<lambda>t. now - t < w) xs)
     = filter (\<lambda>t. a \<le> t \<and> t < a + (w::int)) xs"
  by (induction xs) auto

lemma startsIn_alt:
  "startsIn a w sys = length (filter (\<lambda>t. a \<le> t \<and> t < a + w) (map snd (startLog sys)))"
  by (simp add: startsIn_def filter_map comp_def case_prod_unfold)

lemma limiterInv_later:
  "limiterInv n w m clock sys \<Longrightarrow> clock \<le> clock' \<Longrightarrow> limiterInv n w m clock' sys"
  by (simp add: limiterInv_def startsIn_def)

lemma limiterInv_pruned:
  assumes "limiterInv n w m clock (sys\<lparr>limiter := l\<rparr>)" and "clock \<le> now" and "now \<le> sa"
  shows "limiterInv n w m sa
           (sys\<lparr>limiter := l\<lparr>requestTimestamps := filter (\<lambda>t. now - t < windowMs l) (requestTimestamps l)\<rparr>\<rparr>)"
proof -
  have w: "windowMs l = w" using assms(1) by (simp add: limiterInv_def)
  have "filter (\<lambda>t. T - t < w) (filter (\<lambda>t. now - t < w) (requestTimestamps l))
        = filter (\<lambda>t. T - t < w) (map snd (startLog sys))" if "sa \<le> T" for T
  proof -
    have T: "now \<le> T" "clock \<le> T" using that assms(2,3) by auto
    have "filter (\<lambda>t. T - t < w) (filter (\<lambda>t. now - t < w) (requestTimestamps l))
          = filter (\<lambda>t. T - t < w) (requestTimestamps l)"
      using T(1) by (rule filter_window_later)
    also have "\<dots> = filter (\<lambda>t. T - t < w) (map snd (startLog sys))"
      using assms(1) T(2) by (simp add: limiterInv_def)
    finally show ?thesis .
  qed
  then show ?thesis using assms(1) by (simp add: limiterInv_def w startsIn_def)
qed

lemma limiterInv_started:
  assumes inv: "limiterInv n w m clock (sys\<lparr>limiter := l\<rparr>)" and "clock \<le> now" and "now \<le> sa"
    and cap: "activeRequests l < maxConcurrent l"
    and win: "int (length (filter (\<lambda>t. now - t < windowMs l) (requestTimestamps l))) < maxPerWindow l"
  shows "limiterInv n w m sa
           (sys\<lparr>limiter := l\<lparr>requestTimestamps := filter (\<lambda>t. now - t < windowMs l) (requestTimestamps l) @ [sa],
                     queue := rest, activeRequests := activeRequests l + 1\<rparr>,
                 inFlight := inFlight sys @ [task],
                 startLog := startLog sys @ [(task, sa)]\<rparr>)"
proof -
  have cfg: "maxConcurrent l = n" "windowMs l = w" "maxPerWindow l = m"
    and act: "activeRequests l = int (length (inFlight sys))"
    and log: "\<And>T. clock \<le> T \<Longrightarrow> filter (\<lambda>t. T - t < w) (requestTimestamps l)
                        = filter (\<lambda>t. T - t < w) (map snd (startLog sys))"
    and old: "\<And>a. int (startsIn a w sys) \<le> m"
    using inv by (simp_all add: limiterInv_def startsIn_def)
  let ?ts = "filter (\<lambda>t. now - t < w) (requestTimestamps l)"
  have ts: "?ts = filter (\<lambda>t. now - t < w) (map snd (startLog sys))"
    using log[of now] assms(2) by simp
  have small: "int (length ?ts) < m" using win cfg by simp
  have a1: "filter (\<lambda>t. T - t < w) (?ts @ [sa])
        = filter (\<lambda>t. T - t < w) (map snd (startLog sys @ [(task, sa)]))" if "sa \<le> T" for T
  proof -
    have T: "now \<le> T" "clock \<le> T" using that assms(2,3) by auto
    have "filter (\<lambda>t. T - t < w) ?ts = filter (\<lambda>t. T - t < w) (requestTimestamps l)"
      using T(1) by (rule filter_window_later)
    also have "\<dots> = filter (\<lambda>t. T - t < w) (map snd (startLog sys))"
      using T(2) by (rule log)
    finally show ?thesis by simp
  qed
  have a2: "int (length (filter (\<lambda>t. a \<le> t \<and> t < a + w) (map snd (startLog sys @ [(task, sa)])))) \<le> m" for a
  proof (cases "a \<le> sa \<and> sa < a + w")
    case False
    then show ?thesis using old[of a] by (auto simp: startsIn_alt)
  next
    case True
    have "filter (\<lambda>t. a \<le> t \<and> t < a + w) (map snd (startLog sys))
          = filter (\<lambda>t. a \<le> t \<and> t < a + w) ?ts"
      unfolding ts using True assms(3) filter_window_covered[of sa a w now "map snd (startLog sys)"]
      by (simp only:)
    then have "length (filter (\<lambda>t. a \<le> t \<and> t < a + w) (map snd (startLog sys)))
               = length (filter (\<lambda>t. a \<le> t \<and> t < a + w) ?ts)"
      by (simp only:)
    also have "\<dots> \<le> length ?ts" by (rule length_filter_le)
    finally have "length (filter (\<lambda>t. a \<le> t \<and> t < a + w) (map snd (startLog sys))) \<le> length ?ts" .
    then show ?thesis using small True by simp
  qed
  show ?thesis
    unfolding limiterInv_def startsIn_alt
    using cfg act cap a1 a2 by simp
qed

lemma admit_inv:
  assumes "limiterInv n w m clock (sys\<lparr>limiter := l\<rparr>)" and "clock \<le> now" and "now \<le> sa"
  shows "limiterInv n w m sa (observe sa (processQueue now sa l) sys)"
proof (cases rule: processQueue_cases[of now l sa])
  case backoff
  then show ?thesis using limiterInv_later[OF assms(1)] assms(2,3) by (simp add: observe_def)
next
  case capacity
  then show ?thesis using limiterInv_later[OF assms(1)] assms(2,3) by (simp add: observe_def)
next
  case (window d)
  then show ?thesis using limiterInv_pruned[OF assms] by (simp add: observe_def)
next
  case empty
  then show ?thesis using limiterInv_pruned[OF assms] by (simp add: observe_def)
next
  case (start item rest)
  then show ?thesis
    using limiterInv_started[OF assms start(2,3), where rest = rest and task = item] by (simp add: observe_def)
qed

lemma limiterInv_queue:
  "limiterInv n w m clock (sys\<lparr>limiter := l\<lparr>queue := q\<rparr>\<rparr>) = limiterInv n w m clock (sys\<lparr>limiter := l\<rparr>)"
  by (simp add: limiterInv_def startsIn_def)

lemma limiterInv_settled:
  assumes "limiterInv n w m clock sys" and "task \<in> set (inFlight sys)"
  shows "limiterInv n w m clock
            ((sys\<lparr>inFlight := remove1 task (inFlight sys)\<rparr>)
               \<lparr>limiter := (limiter sys)\<lparr>activeRequests := activeRequests (limiter sys) - 1\<rparr>\<rparr>)"
proof -
  obtain k where k: "length (inFlight sys) = Suc k"
    using assms(2) by (cases "inFlight sys") auto
  have r: "length (remove1 task (inFlight sys)) = k"
    using assms(2) k by (simp add: length_remove1)
  have a: "activeRequests (limiter sys) = int (Suc k)" and b: "int (Suc k) \<le> n"
    using assms(1) k by (simp_all add: limiterInv_def)
  have c: "maxConcurrent (limiter sys) = n" "windowMs (limiter sys) = w" "maxPerWindow (limiter sys) = m"
    "\<forall>T \<ge> clock. filter (\<lambda>t. T - t < w) (requestTimestamps (limiter sys))
                        = filter (\<lambda>t. T - t < w) (map snd (startLog sys))"
    "\<forall>a. int (startsIn a w sys) \<le> m"
    using assms(1) by (simp_all add: limiterInv_def)
  have d: "startsIn a w (sys\<lparr>inFlight := xs, limiter := l\<rparr>) = startsIn a w sys" for a xs l
    by (simp add: startsIn_def)
  show ?thesis
    unfolding limiterInv_def using a b c r by (simp add: d)
qed

lemma step_inv:
  assumes "limiterInv n w m clock sys" and "clock \<le> now" and "now \<le> sa"
  shows "limiterInv n w m sa (step (ev, now, sa) sys)"
proof (cases ev)
  case (Schedule task)
  have "limiterInv n w m clock (sys\<lparr>limiter := (limiter sys)\<lparr>queue := queue (limiter sys) @ [task]\<rparr>\<rparr>)"
    using assms(1) by (simp add: limiterInv_queue)
  then show ?thesis using Schedule assms(2,3) by (simp add: schedule_def admit_inv)
next
  case Timer
  have "limiterInv n w m clock (sys\<lparr>limiter := limiter sys\<rparr>)" using assms(1) by simp
  then show ?thesis using Timer assms(2,3) by (simp add: admit_inv)
next
  case (Settled task)
  show ?thesis
  proof (cases "task \<in> set (inFlight sys)")
    case False
    then show ?thesis using Settled limiterInv_later[OF assms(1)] assms(2,3) by simp
  next
    case True
    have "limiterInv n w m clock
            ((sys\<lparr>inFlight := remove1 task (inFlight sys)\<rparr>)
               \<lparr>limiter := (limiter sys)\<lparr>activeRequests := activeRequests (limiter sys) - 1\<rparr>\<rparr>)"
      using assms(1) True by (rule limiterInv_settled)
    then have "limiterInv n w m sa
       (observe sa (processQueue now sa ((limiter sys)\<lparr>activeRequests := activeRequests (limiter sys) - 1\<rparr>))
          (sys\<lparr>inFlight := remove1 task (inFlight sys)\<rparr>))"
      using assms(2,3) by (rule admit_inv)
    then show ?thesis using Settled True by (simp add: taskSettled_def)
  qed
next
  case (SetGlobalBackoff seconds)
  have "limiterInv n w m sa sys"
    using limiterInv_later[OF assms(1)] assms(2,3) by simp
  then show ?thesis using SetGlobalBackoff by (simp add: limiterInv_def startsIn_def setGlobalBackoff_def)
qed

lemma run_inv:
  "limiterInv n w m clock sys \<Longrightarrow> wellTimed clock evs \<Longrightarrow> \<exists>clock'. limiterInv n w m clock' (run evs sys)"
proof (induction evs arbitrary: clock sys)
  case Nil
  then show ?case by (auto simp: run_def)
next
  case (Cons x evs)
  obtain ev now sa where x: "x = (ev, now, sa)" by (cases x)
  have "limiterInv n w m sa (step (ev, now, sa) sys)"
    using Cons.prems by (auto simp: x intro: step_inv)
  moreover have "wellTimed sa evs" using Cons.prems(2) by (simp add: x)
  ultimately have "\<exists>clock'. limiterInv n w m clock' (run evs (step (ev, now, sa) sys))"
    by (rule Cons.IH)
  then show ?case by (simp add: run_def x)
qed

lemma freshRun_inv: "0 \<le> n \<Longrightarrow> 0 \<le> m \<Longrightarrow> limiterInv n w m clock (freshRun n w m)"
  by (simp add: limiterInv_def freshRun_def newRateLimiter_def startsIn_def)


text \<open>
  C2. In every state that a run of the limiter with configuration \<open>(N, W, M)\<close> reaches, the
  number of tasks in flight is at most \<open>N\<close>, and the number of tasks started within any
  window \<open>[a, a + W)\<close> of \<open>W\<close> milliseconds is at most \<open>M\<close>. The configuration consists of
  counts (\<open>N\<close> and \<open>M\<close> are not negative) and the clock does not run backwards.
\<close>

theorem quota_respected:
  assumes "0 \<le> n" and "0 \<le> m" and "wellTimed clock evs"
  shows "int (length (inFlight (run evs (freshRun n w m)))) \<le> n
       \<and> activeRequests (limiter (run evs (freshRun n w m))) = int (length (inFlight (run evs (freshRun n w m))))
       \<and> (\<forall>a. int (startsIn a w (run evs (freshRun n w m))) \<le> m)"
proof -
  obtain clock' where "limiterInv n w m clock' (run evs (freshRun n w m))"
    using run_inv[OF freshRun_inv[OF assms(1,2)] assms(3)] by blast
  then show ?thesis by (simp add: limiterInv_def)
qed

theorem quota_respected_witness:
  "(0::int) \<le> 2 \<and> (0::int) \<le> 3 \<and> wellTimed 0 fiveTasks
   \<and> inFlight (run fiveTasks (freshRun 2 1000 3)) = [4, 5]
   \<and> int (length (inFlight (run fiveTasks (freshRun 2 1000 3)))) \<le> 2
   \<and> int (startsIn 0 1000 (run fiveTasks (freshRun 2 1000 3))) \<le> 3
   \<and> int (startsIn 700 1000 (run fiveTasks (freshRun 2 1000 3))) \<le> 3"
proof -
  have w: "wellTimed 0 fiveTasks" by (simp add: fiveTasks_def)
  have r: "inFlight (run fiveTasks (freshRun 2 1000 3)) = [4, 5]" by code_simp
  show ?thesis
    using quota_respected[of 2 3 0 fiveTasks 1000] w r by simp
qed

subsection \<open>The global backoff\<close>

lemma observe_paused:
  assumes "pausedUntil g k (sys\<lparr>limiter := l\<rparr>)" and "now \<le> sa"
  shows "pausedUntil g k (observe sa (processQueue now sa l) sys)"
proof (cases rule: processQueue_cases[of now l sa])
  case (start item rest)
  then show ?thesis using assms by (auto simp: observe_def pausedUntil_def)
qed (use assms in \<open>simp_all add: observe_def pausedUntil_def\<close>)

lemma step_paused:
  assumes "pausedUntil g k sys" and "\<not> isBackoff (ev, now, sa)" and "now \<le> sa"
  shows "pausedUntil g k (step (ev, now, sa) sys)"
proof (cases ev)
  case (Schedule task)
  have "pausedUntil g k (sys\<lparr>limiter := (limiter sys)\<lparr>queue := queue (limiter sys) @ [task]\<rparr>\<rparr>)"
    using assms(1) by (simp add: pausedUntil_def)
  then show ?thesis using Schedule assms(3) by (simp add: schedule_def observe_paused)
next
  case Timer
  have "pausedUntil g k (sys\<lparr>limiter := limiter sys\<rparr>)" using assms(1) by simp
  then show ?thesis using Timer assms(3) by (simp add: observe_paused)
next
  case (Settled task)
  have "pausedUntil g k ((sys\<lparr>inFlight := remove1 task (inFlight sys)\<rparr>)
           \<lparr>limiter := (limiter sys)\<lparr>activeRequests := activeRequests (limiter sys) - 1\<rparr>\<rparr>)"
    using assms(1) by (simp add: pausedUntil_def)
  then have "pausedUntil g k
     (observe sa (processQueue now sa ((limiter sys)\<lparr>activeRequests := activeRequests (limiter sys) - 1\<rparr>))
        (sys\<lparr>inFlight := remove1 task (inFlight sys)\<rparr>))"
    using assms(3) by (rule observe_paused)
  then show ?thesis using Settled assms(1) by (simp add: taskSettled_def)
next
  case (SetGlobalBackoff seconds)
  then show ?thesis using assms(2) by simp
qed

lemma run_paused:
  "pausedUntil g k sys \<Longrightarrow> wellTimed clock evs \<Longrightarrow> \<forall>x \<in> set evs. \<not> isBackoff x
   \<Longrightarrow> pausedUntil g k (run evs sys)"
proof (induction evs arbitrary: clock sys)
  case Nil
  then show ?case by (simp add: run_def)
next
  case (Cons x evs)
  obtain ev now sa where x: "x = (ev, now, sa)" by (cases x)
  have "pausedUntil g k (step (ev, now, sa) sys)"
    using Cons.prems by (auto simp: x intro: step_paused)
  moreover have "wellTimed sa evs" using Cons.prems(2) by (simp add: x)
  moreover have "\<forall>x \<in> set evs. \<not> isBackoff x" using Cons.prems(3) by simp
  ultimately have "pausedUntil g k (run evs (step (ev, now, sa) sys))"
    by (rule Cons.IH)
  then show ?case by (simp add: run_def x)
qed


text \<open>
  C1, as amended. After \<open>setGlobalBackoff(s)\<close> at time \<open>t\<close>, and as long as \<open>setGlobalBackoff\<close>
  is not called again, no task starts before \<open>t + s\<close> seconds, indeed not before
  \<open>t + 1000 * s + 1000\<close> milliseconds: neither a task that was queued at the call nor one
  scheduled after it.
\<close>

theorem backoff_pauses_every_task:
  assumes "wellTimed t evs" and "\<forall>x \<in> set evs. \<not> isBackoff x"
  shows "\<forall>(task, started) \<in> set (drop (length (startLog sys))
            (startLog (run evs (step (SetGlobalBackoff s, t, t') sys)))).
           t + s * 1000 + 1000 \<le> started"
proof -
  have "pausedUntil (t + s * 1000 + 1000) (length (startLog sys)) (step (SetGlobalBackoff s, t, t') sys)"
    by (simp add: pausedUntil_def setGlobalBackoff_def)
  then have "pausedUntil (t + s * 1000 + 1000) (length (startLog sys))
               (run evs (step (SetGlobalBackoff s, t, t') sys))"
    using assms by (rule run_paused)
  then show ?thesis by (simp add: pausedUntil_def)
qed


theorem backoff_pauses_every_task_witness:
  "wellTimed 100 oneBackoff
   \<and> queue (limiter queuedBefore) = [2]
   \<and> startLog queuedBefore = [(1, 0)]
   \<and> startLog (run oneBackoff (step (SetGlobalBackoff 2, 100, 100) queuedBefore))
       = [(1, 0), (2, 3200), (3, 3300)]
   \<and> (100::int) + 2 * 1000 + 1000 \<le> 3200 \<and> (100::int) + 2 * 1000 + 1000 \<le> 3300"
proof -
  have w: "wellTimed 100 oneBackoff" by (simp add: oneBackoff_def)
  have n: "\<forall>x \<in> set oneBackoff. \<not> isBackoff x" by (simp add: oneBackoff_def)
  have q: "queue (limiter queuedBefore) = [2]" by code_simp
  have e: "startLog queuedBefore = [(1, 0)]" by code_simp
  have l: "startLog (run oneBackoff (step (SetGlobalBackoff 2, 100, 100) queuedBefore))
             = [(1, 0), (2, 3200), (3, 3300)]"
    by code_simp
  have "\<forall>(task, started) \<in> set (drop (length (startLog queuedBefore))
            (startLog (run oneBackoff (step (SetGlobalBackoff 2, 100, 100) queuedBefore)))).
           100 + 2 * 1000 + 1000 \<le> started"
    by (rule backoff_pauses_every_task[OF w n])
  then have "\<forall>(task, started) \<in> set [(2::nat, 3200::int), (3, 3300)].
               100 + 2 * 1000 + 1000 \<le> started"
    unfolding l e by simp
  then have c: "(100::int) + 2 * 1000 + 1000 \<le> 3200 \<and> (100::int) + 2 * 1000 + 1000 \<le> 3300"
    by simp
  show ?thesis by (intro conjI w q e l conjunct1[OF c] conjunct2[OF c])
qed

text \<open>
  C1 as stated fails when a second overload signal follows: \<open>setGlobalBackoff\<close> assigns the
  deadline, it does not extend it. After 60 seconds requested at time 0 and 1 second
  requested at time 100, a task scheduled at time 3000 starts at once.
\<close>

theorem backoff_overwritten_counterexample:
  "startLog (run twoBackoffs (freshRun 5 1000 10)) = [(7, 3000)]
   \<and> (3000::int) < 0 + 60 * 1000"
  by code_simp

section \<open>Properties of the retrying fetch and of the service\<close>

subsection \<open>A missing route is not retried\<close>

lemma startsWith_append [simp]: "startsWith (p @ s) p"
  by (induction p) auto

lemma startsWith_includes: "startsWith s p \<Longrightarrow> includesStr s p"
  by (cases s) (auto elim: startsWith.elims)

lemma backendError_prefix:
  "startsWith (message (backendError url r)) ''Backend Error: The proxy server returned 404 for ''"
  unfolding backendError_def newError_def
  by (simp only: JsError.simps append_assoc startsWith_append)

lemma backendError_marked: "includesStr (message (backendError url r)) ''Backend Error''"
  by (simp add: backendError_def newError_def)

lemma catchBlock_backend: "catchBlock (backendError url r) maxRetries attempt = Break (backendError url r)"
  by (simp add: catchBlock_def backendError_marked)

lemma afterLoop_backend: "afterLoop url' (Some (backendError url r)) = backendError url r"
  by (simp add: afterLoop_def backendError_marked)

lemma decision_no_route:
  assumes "statusCode r = 404" and "\<not> isJson r"
  shows "attemptDecision (Responds r) url maxRetries attempt = (Break (backendError url r), [])"
  using assms by (simp add: attemptDecision_def catchBlock_backend)

lemma decision_retried:
  assumes "retried settled" and "attempt < maxRetries"
  shows "\<exists>stored bs. attemptDecision settled url maxRetries attempt = (Continue stored, bs)"
  using assms
  by (cases settled) (auto simp: retried_def attemptDecision_def catchBlock_def)

lemma fetchLoop_no_route:
  assumes "k \<le> maxRetries" and "net k = Responds r" and "statusCode r = 404" and "\<not> isJson r"
  shows "result (fetchLoop net url maxRetries k lastError) = Inl (backendError url r)"
    and "fetches (fetchLoop net url maxRetries k lastError) = 1"
  using assms
  by (simp_all add: fetchLoop.simps[of net url maxRetries k] decision_no_route afterLoop_backend)

lemma fetchLoop_skip:
  assumes "k \<le> maxRetries" and "\<forall>i < k. retried (net i)"
  shows "j \<le> k \<Longrightarrow> \<exists>le'. result (fetchLoop net url maxRetries j le) = result (fetchLoop net url maxRetries k le')
            \<and> fetches (fetchLoop net url maxRetries j le) = (k - j) + fetches (fetchLoop net url maxRetries k le')"
proof (induction "k - j" arbitrary: j le)
  case 0
  then have "j = k" by simp
  then show ?case by auto
next
  case (Suc d)
  then have j: "j < k" "j < maxRetries" "j \<le> maxRetries" using assms(1) by auto
  then have "retried (net j)" using assms(2) by simp
  then obtain stored bs where dec: "attemptDecision (net j) url maxRetries j = (Continue stored, bs)"
    using decision_retried j(2) by blast
  let ?le = "case stored of None \<Rightarrow> le | Some e \<Rightarrow> Some e"
  have unfold: "fetchLoop net url maxRetries j le = counted bs (fetchLoop net url maxRetries (j + 1) ?le)"
    using j(3) dec by (simp add: fetchLoop.simps[of net url maxRetries j])
  have "d = k - (j + 1)" "j + 1 \<le> k" using Suc.hyps(2) j by auto
  then obtain le' where
    "result (fetchLoop net url maxRetries (j + 1) ?le) = result (fetchLoop net url maxRetries k le')"
    "fetches (fetchLoop net url maxRetries (j + 1) ?le) = (k - (j + 1)) + fetches (fetchLoop net url maxRetries k le')"
    using Suc.hyps(1)[of "j + 1" ?le] by blast
  then show ?case using j(1) by (auto simp: unfold counted_def intro!: exI[of _ le'])
qed

lemma networkError_prefix:
  "\<not> includesStr (message e) ''Backend Error'' \<Longrightarrow>
   includesStr (message e) ''Failed to fetch'' \<or> errorName e = ''TypeError'' \<Longrightarrow>
   \<not> startsWith (message (afterLoop url (Some e))) ''Backend Error''"
  by (auto simp: afterLoop_def newError_def)

lemma busyError_prefix: "\<not> startsWith (message (busyError ra)) ''Backend Error''"
  by (simp add: busyError_def newError_def)

lemma handleApiError_prefix:
  "\<not> startsWith (message (handleApiError parseApiError response context)) ''Backend Error''"
  by (simp add: handleApiError_def newError_def Let_def)


text \<open>
  C7. When a call of \<open>fetchWithRetry\<close> receives, in some turn, a 404 response whose content
  type is not JSON (the turns before it having been retried), it fails in that turn: it
  has fetched once per turn so far and fetches no more. The error thrown is the
  \<open>Backend Error\<close> naming the route, and its message begins unlike the message of every
  network error, busy-server error and API error that the code makes.
\<close>

theorem backend_404_not_retried:
  assumes "k \<le> maxRetries" and "\<forall>j < k. retried (net j)"
    and "net k = Responds r" and "statusCode r = 404" and "\<not> isJson r"
  shows "result (fetchWithRetry net url maxRetries) = Inl (backendError url r)
       \<and> fetches (fetchWithRetry net url maxRetries) = k + 1
       \<and> startsWith (message (backendError url r)) ''Backend Error: The proxy server returned 404 for ''
       \<and> (\<forall>e. \<not> includesStr (message e) ''Backend Error''
               \<and> (includesStr (message e) ''Failed to fetch'' \<or> errorName e = ''TypeError'')
             \<longrightarrow> \<not> startsWith (message (afterLoop url (Some e))) ''Backend Error'')
       \<and> (\<forall>ra. \<not> startsWith (message (busyError ra)) ''Backend Error'')
       \<and> (\<forall>parseApiError (response :: 'a Response) context.
             \<not> startsWith (message (handleApiError parseApiError response context)) ''Backend Error'')"
proof -
  obtain le' where
    "result (fetchLoop net url maxRetries 0 None) = result (fetchLoop net url maxRetries k le')"
    "fetches (fetchLoop net url maxRetries 0 None) = (k - 0) + fetches (fetchLoop net url maxRetries k le')"
    using fetchLoop_skip[OF assms(1,2), of 0 url None] by blast
  then have "result (fetchWithRetry net url maxRetries) = Inl (backendError url r)"
    and "fetches (fetchWithRetry net url maxRetries) = k + 1"
    using fetchLoop_no_route[where net = net and k = k and r = r and maxRetries = maxRetries
        and url = url and lastError = le'] assms
    by (simp_all add: fetchWithRetry_def)
  then show ?thesis
    using backendError_prefix networkError_prefix busyError_prefix handleApiError_prefix by blast
qed



theorem backend_404_not_retried_witness:
  "(1::nat) \<le> 1 \<and> retried (busyThenNoRoute 0) \<and> busyThenNoRoute 1 = Responds htmlNotFound
   \<and> statusCode htmlNotFound = 404 \<and> \<not> isJson htmlNotFound
   \<and> result (fetchWithRetry busyThenNoRoute ''/api/v2/tickets'' 1)
       = Inl (backendError ''/api/v2/tickets'' htmlNotFound)
   \<and> fetches (fetchWithRetry busyThenNoRoute ''/api/v2/tickets'' 1) = 2"
proof -
  have a: "\<forall>j < 1. retried (busyThenNoRoute j)"
    by (simp add: busyThenNoRoute_def retried_def jsonResponse_def isJson_def)
  have b: "busyThenNoRoute 1 = Responds htmlNotFound" by (simp add: busyThenNoRoute_def)
  have c: "statusCode htmlNotFound = 404" by (simp add: htmlNotFound_def)
  have d: "\<not> isJson htmlNotFound" by (simp add: htmlNotFound_def isJson_def)
  have e: "(1::nat) \<le> 1" by simp
  have r: "result (fetchWithRetry busyThenNoRoute ''/api/v2/tickets'' 1)
             = Inl (backendError ''/api/v2/tickets'' htmlNotFound)"
    and f: "fetches (fetchWithRetry busyThenNoRoute ''/api/v2/tickets'' 1) = 1 + 1"
    using backend_404_not_retried[OF e a b c d, of "''/api/v2/tickets''"] by blast+
  have f2: "fetches (fetchWithRetry busyThenNoRoute ''/api/v2/tickets'' 1) = 2"
    unfolding f by simp
  have a0: "retried (busyThenNoRoute 0)" using a by simp
  show ?thesis
    by (intro conjI e a0 b c d r f2)
qed

subsection \<open>The pages of a search\<close>










subsection \<open>The fallback of the tickets of a period\<close>

text \<open>
  C6. When the list endpoint answers 403, \<open>getTicketsUpdatedInPeriod\<close> throws the error
  "Access Denied" to its caller and sends no search request: the message that
  \<open>handleApiError\<close> makes for 403 holds neither "403" nor "400", which is what the \<open>catch\<close>
  looks for. When the list endpoint answers 400, the search fallback is taken and its
  result returned.
\<close>

theorem forbidden_list_reaches_caller:
  "getTicketsUpdatedInPeriod bodyText (rejectingList 403) isoJanuary updatedAtNoon 0 2
     = Inl (newError (''Access Denied: You do not have permission to access ''
             @ ''/v2/tickets?updated_since=2024-01-01T00%3A00%3A00Z''
             @ ''&include=description%2Cstats%2Crequester&order_by=updated_at&order_type=asc.''))
   \<and> getTicketsUpdatedInPeriod bodyText (rejectingList 400) isoJanuary updatedAtNoon 0 2
     = Inr [42]"
  by code_simp

end
